theory Spec2Isabelle
  imports Complex_Main "HOL-Library.Word" "HOL-Library.Log_Nat" "HOL-Library.Multiset"
begin

section \<open>Strings\<close>

text \<open>
  A JavaScript string is a sequence of UTF-16 code units, and \<open>length\<close>, \<open>slice\<close> and
  the regular expressions of \<open>assets/app.js\<close> all work on code units. String literals
  of the source that are not ASCII are written out as their code units.
\<close>

type_synonym uchar = "16 word"

type_synonym jsstring = "uchar list"

definition ascii :: "string \<Rightarrow> jsstring" where
  "ascii s = map (\<lambda>c. of_nat (of_char c)) s"

text \<open>
  \<open>WhiteSpace\<close> and \<open>LineTerminator\<close> of ECMA-262: the code units that
  \<open>String.prototype.trim\<close> strips and that \<open>Number\<close> ignores around a numeral.
\<close>

definition is_line_terminator :: "uchar \<Rightarrow> bool" where
  "is_line_terminator c \<longleftrightarrow> c = 0x0A \<or> c = 0x0D \<or> c = 0x2028 \<or> c = 0x2029"

definition is_white_space :: "uchar \<Rightarrow> bool" where
  "is_white_space c \<longleftrightarrow>
     c = 0x09 \<or> c = 0x0B \<or> c = 0x0C \<or> c = 0x20 \<or> c = 0xA0 \<or> c = 0x1680 \<or>
     (0x2000 \<le> c \<and> c \<le> 0x200A) \<or> c = 0x202F \<or> c = 0x205F \<or> c = 0x3000 \<or> c = 0xFEFF"

definition is_trimmed_char :: "uchar \<Rightarrow> bool" where
  "is_trimmed_char c \<longleftrightarrow> is_white_space c \<or> is_line_terminator c"

definition trim :: "jsstring \<Rightarrow> jsstring" where
  "trim s = rev (dropWhile is_trimmed_char (rev (dropWhile is_trimmed_char s)))"

text \<open>The character class \<open>[\n\r]\<close> of \<open>sanitizeText\<close>.\<close>

definition is_newline :: "uchar \<Rightarrow> bool" where
  "is_newline c \<longleftrightarrow> c = 0x0A \<or> c = 0x0D"

text \<open>
  \<open>text.replace(/[\n\r]+/g, ' ')\<close>: every maximal run of line breaks becomes one space.
  The accumulator flag says that the previous code unit belonged to a run already replaced.
\<close>

fun replace_newline_runs :: "bool \<Rightarrow> jsstring \<Rightarrow> jsstring" where
  "replace_newline_runs in_run [] = []"
| "replace_newline_runs in_run (c # cs) =
     (if is_newline c then
        (if in_run then replace_newline_runs True cs else 0x20 # replace_newline_runs True cs)
      else c # replace_newline_runs False cs)"

text \<open>The string part of \<open>sanitizeText\<close>: \<open>s.replace(/[\n\r]+/g, ' ').trim()\<close>.\<close>

definition sanitize_string :: "jsstring \<Rightarrow> jsstring" where
  "sanitize_string s = trim (replace_newline_runs False s)"

text \<open>\<open>Array.prototype.join\<close> on an array of strings.\<close>

fun join :: "jsstring \<Rightarrow> jsstring list \<Rightarrow> jsstring" where
  "join sep [] = []"
| "join sep [x] = x"
| "join sep (x # y # ys) = x @ sep @ join sep (y # ys)"

section \<open>Numbers\<close>

text \<open>
  A JavaScript number is an IEEE 754 binary64 value. A finite one is represented by the
  rational it denotes; the sign of zero is not represented (nothing in \<open>app.js\<close>
  distinguishes \<open>-0\<close> from \<open>+0\<close>: both are falsy, both are integers below 1 and
  both print as \<open>0\<close>).
\<close>

datatype jsnum = NaN | PosInf | NegInf | Fin rat

text \<open>\<open>ilog2 q\<close> is the binary exponent of a positive rational: \<open>2^e \<le> q < 2^(e+1)\<close>.\<close>

definition ilog2 :: "rat \<Rightarrow> int" where
  "ilog2 q = (if 1 \<le> q then bitlen \<lfloor>q\<rfloor> - 1 else - bitlen (\<lceil>1 / q\<rceil> - 1))"

definition round_half_even :: "rat \<Rightarrow> int" where
  "round_half_even x =
     (let f = \<lfloor>x\<rfloor>; d = x - of_int f
      in if d < 1 / 2 then f else if 1 / 2 < d then f + 1 else if even f then f else f + 1)"

text \<open>
  Rounding a positive rational to 53 significant bits, ties to even, with the exponent
  bounded below (subnormal numbers have the spacing \<open>2^-1074\<close>) and not above.
\<close>

definition round_magnitude :: "rat \<Rightarrow> rat" where
  "round_magnitude a =
     (let e = max (ilog2 a) (- 1022); u = 2 powi (e - 52)
      in of_int (round_half_even (a / u)) * u)"

text \<open>
  The Number value for a rational (ECMA-262 6.1.6.1): the nearest binary64 value, an
  infinity when the rounded magnitude reaches \<open>2^1024\<close>.
\<close>

definition number_value :: "rat \<Rightarrow> jsnum" where
  "number_value q =
     (if q = 0 then Fin 0
      else let r = round_magnitude \<bar>q\<bar>
           in if 2 powi 1024 \<le> r then (if q < 0 then NegInf else PosInf)
              else Fin (if q < 0 then - r else r))"

text \<open>The arithmetic \<open>a + b\<close>, \<open>a - b\<close> and \<open>a / b\<close> on numbers.\<close>

fun num_neg :: "jsnum \<Rightarrow> jsnum" where
  "num_neg NaN = NaN"
| "num_neg PosInf = NegInf"
| "num_neg NegInf = PosInf"
| "num_neg (Fin q) = Fin (- q)"

fun num_add :: "jsnum \<Rightarrow> jsnum \<Rightarrow> jsnum" where
  "num_add NaN _ = NaN"
| "num_add _ NaN = NaN"
| "num_add PosInf NegInf = NaN"
| "num_add NegInf PosInf = NaN"
| "num_add PosInf _ = PosInf"
| "num_add NegInf _ = NegInf"
| "num_add _ PosInf = PosInf"
| "num_add _ NegInf = NegInf"
| "num_add (Fin a) (Fin b) = number_value (a + b)"

definition num_sub :: "jsnum \<Rightarrow> jsnum \<Rightarrow> jsnum" where
  "num_sub a b = num_add a (num_neg b)"

text \<open>
  Division; a zero divisor is read as \<open>+0\<close>. The only division of \<open>app.js\<close> divides by
  the length of a non-empty array.
\<close>

fun num_div :: "jsnum \<Rightarrow> jsnum \<Rightarrow> jsnum" where
  "num_div NaN _ = NaN"
| "num_div _ NaN = NaN"
| "num_div (Fin a) (Fin b) =
     (if b = 0 then (if a = 0 then NaN else if 0 < a then PosInf else NegInf)
      else number_value (a / b))"
| "num_div (Fin a) _ = Fin 0"
| "num_div PosInf (Fin b) = (if b < 0 then NegInf else PosInf)"
| "num_div NegInf (Fin b) = (if b < 0 then PosInf else NegInf)"
| "num_div _ _ = NaN"

text \<open>\<open>a < b\<close> on numbers: false as soon as one side is \<open>NaN\<close>.\<close>

fun num_less :: "jsnum \<Rightarrow> jsnum \<Rightarrow> bool" where
  "num_less NaN _ = False"
| "num_less _ NaN = False"
| "num_less (Fin a) (Fin b) = (a < b)"
| "num_less NegInf NegInf = False"
| "num_less NegInf _ = True"
| "num_less _ NegInf = False"
| "num_less PosInf _ = False"
| "num_less _ PosInf = True"

fun Number_isInteger :: "jsnum \<Rightarrow> bool" where
  "Number_isInteger (Fin q) = (of_int \<lfloor>q\<rfloor> = q)"
| "Number_isInteger _ = False"

subsection \<open>\<open>Number(string)\<close>\<close>

text \<open>
  \<open>StringToNumber\<close> of ECMA-262 7.1.4.1.1: the string is trimmed, the empty string is 0,
  and otherwise the whole of it must be a \<open>StrNumericLiteral\<close>: a signed decimal literal
  (digits, an optional fraction, an optional exponent, or \<open>Infinity\<close>), or an unsigned
  binary, octal or hexadecimal integer. Anything else is \<open>NaN\<close>. The mathematical value
  of the literal is rounded to the nearest binary64 value.
\<close>

definition is_digit :: "uchar \<Rightarrow> bool" where
  "is_digit c \<longleftrightarrow> 0x30 \<le> c \<and> c \<le> 0x39"

definition digit_value :: "uchar \<Rightarrow> int" where
  "digit_value c =
     (if 0x30 \<le> c \<and> c \<le> 0x39 then uint c - 48
      else if 0x41 \<le> c \<and> c \<le> 0x46 then uint c - 55
      else if 0x61 \<le> c \<and> c \<le> 0x66 then uint c - 87
      else 0)"

definition is_digit_of :: "int \<Rightarrow> uchar \<Rightarrow> bool" where
  "is_digit_of radix c \<longleftrightarrow>
     (is_digit c \<or> (0x41 \<le> c \<and> c \<le> 0x46) \<or> (0x61 \<le> c \<and> c \<le> 0x66)) \<and> digit_value c < radix"

definition digits_value :: "int \<Rightarrow> jsstring \<Rightarrow> int" where
  "digits_value radix ds = foldl (\<lambda>acc c. radix * acc + digit_value c) 0 ds"

definition split_sign :: "jsstring \<Rightarrow> bool \<times> jsstring" where
  "split_sign s =
     (case s of
        [] \<Rightarrow> (False, [])
      | c # r \<Rightarrow> if c = 0x2D then (True, r) else if c = 0x2B then (False, r) else (False, s))"

definition ExponentPart :: "jsstring \<Rightarrow> int option" where
  "ExponentPart s =
     (case s of
        [] \<Rightarrow> Some 0
      | c # r \<Rightarrow>
          if c = 0x65 \<or> c = 0x45 then
            (case split_sign r of
               (neg, ds) \<Rightarrow>
                 if ds \<noteq> [] \<and> list_all is_digit ds
                 then Some (if neg then - digits_value 10 ds else digits_value 10 ds)
                 else None)
          else None)"

definition StrUnsignedDecimalLiteral :: "jsstring \<Rightarrow> rat option" where
  "StrUnsignedDecimalLiteral s =
     (let ip = takeWhile is_digit s;
          r1 = dropWhile is_digit s;
          dot = (r1 \<noteq> [] \<and> hd r1 = 0x2E);
          fp = (if dot then takeWhile is_digit (tl r1) else []);
          r2 = (if dot then dropWhile is_digit (tl r1) else r1)
      in if ip = [] \<and> fp = [] then None
         else (case ExponentPart r2 of
                 None \<Rightarrow> None
               | Some ex \<Rightarrow>
                   Some (of_int (digits_value 10 (ip @ fp)) * 10 powi (ex - int (length fp)))))"

definition StrDecimalLiteral :: "jsstring \<Rightarrow> jsnum" where
  "StrDecimalLiteral s =
     (case split_sign s of
        (neg, u) \<Rightarrow>
          if u = ascii ''Infinity'' then (if neg then NegInf else PosInf)
          else (case StrUnsignedDecimalLiteral u of
                  None \<Rightarrow> NaN
                | Some q \<Rightarrow> number_value (if neg then - q else q)))"

definition NonDecimalIntegerLiteral :: "jsstring \<Rightarrow> int option" where
  "NonDecimalIntegerLiteral s =
     (case s of
        z # p # ds \<Rightarrow>
          if z = 0x30 \<and> ds \<noteq> [] then
            (if (p = 0x78 \<or> p = 0x58) \<and> list_all (is_digit_of 16) ds then Some (digits_value 16 ds)
             else if (p = 0x6F \<or> p = 0x4F) \<and> list_all (is_digit_of 8) ds then Some (digits_value 8 ds)
             else if (p = 0x62 \<or> p = 0x42) \<and> list_all (is_digit_of 2) ds then Some (digits_value 2 ds)
             else None)
          else None
      | _ \<Rightarrow> None)"

definition StringToNumber :: "jsstring \<Rightarrow> jsnum" where
  "StringToNumber str =
     (let t = trim str
      in if t = [] then Fin 0
         else (case NonDecimalIntegerLiteral t of
                 Some n \<Rightarrow> number_value (of_int n)
               | None \<Rightarrow> StrDecimalLiteral t))"

section \<open>Values, coercions and the host\<close>

text \<open>
  The values a property of a stored entry can hold. \<open>JUndefined\<close> is what reading an
  absent property gives. Properties holding arrays or objects are outside this model.
\<close>

datatype jsval = JUndefined | JNull | JBool bool | JNumber jsnum | JString jsstring

datatype exn = TypeError | SyntaxError | SecurityError

text \<open>What \<open>JSON.parse\<close> returns: an array, an object, or a primitive value.\<close>

datatype json = JArray "json list" | JObject "(jsstring \<times> json) list" | JValue jsval

text \<open>
  The parts of the JavaScript host that \<open>app.js\<close> calls and ECMA-262 leaves to the
  implementation, or that are large algorithms of their own: the digits of a number that
  is not an integer up to \<open>2^53\<close>, the date parser, and the JSON parser (\<open>Inl\<close> is the
  exception it throws).
\<close>

record host =
  number_digits :: "rat \<Rightarrow> jsstring"
  Date_parse :: "jsstring \<Rightarrow> jsnum"
  JSON_parse :: "jsstring \<Rightarrow> exn + json"

fun ToBoolean :: "jsval \<Rightarrow> bool" where
  "ToBoolean JUndefined = False"
| "ToBoolean JNull = False"
| "ToBoolean (JBool b) = b"
| "ToBoolean (JNumber n) = (n \<noteq> NaN \<and> n \<noteq> Fin 0)"
| "ToBoolean (JString s) = (s \<noteq> [])"

fun ToNumber :: "jsval \<Rightarrow> jsnum" where
  "ToNumber JUndefined = NaN"
| "ToNumber JNull = Fin 0"
| "ToNumber (JBool b) = Fin (if b then 1 else 0)"
| "ToNumber (JNumber n) = n"
| "ToNumber (JString s) = StringToNumber s"

text \<open>The expression \<open>a || b\<close>.\<close>

definition or_else :: "jsval \<Rightarrow> jsval \<Rightarrow> jsval" where
  "or_else a b = (if ToBoolean a then a else b)"

text \<open>The decimal digits of a natural number.\<close>

fun dec_digits :: "nat \<Rightarrow> jsstring" where
  "dec_digits n =
     (if n < 10 then [of_nat (48 + n)] else dec_digits (n div 10) @ [of_nat (48 + n mod 10)])"

declare dec_digits.simps [simp del]

text \<open>
  \<open>Number::toString\<close> in radix 10 (ECMA-262 6.1.6.1.20). An integer up to \<open>2^53\<close> prints
  as its decimal digits; the shortest digits that identify any other number are the
  host's.
\<close>

definition Number_toString :: "host \<Rightarrow> jsnum \<Rightarrow> jsstring" where
  "Number_toString h x =
     (case x of
        NaN \<Rightarrow> ascii ''NaN''
      | PosInf \<Rightarrow> ascii ''Infinity''
      | NegInf \<Rightarrow> ascii ''-Infinity''
      | Fin q \<Rightarrow>
          if of_int \<lfloor>q\<rfloor> = q \<and> \<bar>q\<bar> \<le> 2 ^ 53
          then (if q < 0 then ascii ''-'' else []) @ dec_digits (nat \<bar>\<lfloor>q\<rfloor>\<bar>)
          else number_digits h q)"

fun ToString :: "host \<Rightarrow> jsval \<Rightarrow> jsstring" where
  "ToString h JUndefined = ascii ''undefined''"
| "ToString h JNull = ascii ''null''"
| "ToString h (JBool b) = (if b then ascii ''true'' else ascii ''false'')"
| "ToString h (JNumber n) = Number_toString h n"
| "ToString h (JString s) = s"

text \<open>
  \<open>x.toFixed(1)\<close> (ECMA-262 21.1.3.3 with one fraction digit): \<open>n\<close> is the integer for
  which \<open>n / 10 - x\<close> is closest to zero, the larger one of two.
\<close>

definition Number_toFixed1 :: "host \<Rightarrow> jsnum \<Rightarrow> jsstring" where
  "Number_toFixed1 h x =
     (case x of
        Fin q \<Rightarrow>
          (let s = (if q < 0 then ascii ''-'' else []); a = \<bar>q\<bar>
           in if 10 ^ 21 \<le> a then s @ Number_toString h (Fin a)
              else let m = dec_digits (nat \<lfloor>a * 10 + 1 / 2\<rfloor>);
                       m' = (if length m \<le> 1 then 0x30 # m else m)
                   in s @ butlast m' @ [0x2E] @ [last m'])
      | _ \<Rightarrow> Number_toString h x)"

text \<open>
  \<open>new Date(v)\<close> followed by the conversion of the date to a number: its time value in
  milliseconds, \<open>NaN\<close> for an invalid date. A string is parsed, every other value is
  converted to a number; \<open>TimeClip\<close> bounds and truncates the result.
\<close>

fun TimeClip :: "jsnum \<Rightarrow> jsnum" where
  "TimeClip (Fin q) =
     (if 8640000000000000 < \<bar>q\<bar> then NaN
      else Fin (of_int (if 0 \<le> q then \<lfloor>q\<rfloor> else \<lceil>q\<rceil>)))"
| "TimeClip _ = NaN"

fun Date_value :: "host \<Rightarrow> jsval \<Rightarrow> jsnum" where
  "Date_value h (JString s) = TimeClip (Date_parse h s)"
| "Date_value h v = TimeClip (ToNumber v)"

text \<open>
  \<open>Array.prototype.sort(comparefn)\<close>. ECMA-262 reads a \<open>NaN\<close> result of the comparison
  function as \<open>+0\<close> and requires a stable sort; the order is fixed by the standard when
  the comparison function is consistent. The model is the stable insertion sort.
\<close>

definition sorts_after :: "('a \<Rightarrow> 'a \<Rightarrow> jsnum) \<Rightarrow> 'a \<Rightarrow> 'a \<Rightarrow> bool" where
  "sorts_after comparefn a b \<longleftrightarrow> num_less (Fin 0) (comparefn a b)"

fun insert_sorted :: "('a \<Rightarrow> 'a \<Rightarrow> jsnum) \<Rightarrow> 'a \<Rightarrow> 'a list \<Rightarrow> 'a list" where
  "insert_sorted comparefn x [] = [x]"
| "insert_sorted comparefn x (y # ys) =
     (if sorts_after comparefn x y then y # insert_sorted comparefn x ys else x # y # ys)"

fun Array_sort :: "('a \<Rightarrow> 'a \<Rightarrow> jsnum) \<Rightarrow> 'a list \<Rightarrow> 'a list" where
  "Array_sort comparefn [] = []"
| "Array_sort comparefn (x # xs) = insert_sorted comparefn x (Array_sort comparefn xs)"

section \<open>The application: \<open>assets/app.js\<close>\<close>

definition STORAGE_KEY :: jsstring where
  "STORAGE_KEY = ascii ''SURVEY_V1''"

definition DEPARTMENTS :: "jsstring list" where
  "DEPARTMENTS =
     [[0x55B6, 0x696D], [0x4E8B, 0x52D9], [0x30B7, 0x30B9, 0x30C6, 0x30E0], [0x305D, 0x306E, 0x4ED6]]"

text \<open>The literal that names the catch-all bucket; it is the last of \<open>DEPARTMENTS\<close>.\<close>

definition OTHER :: jsstring where
  "OTHER = [0x305D, 0x306E, 0x4ED6]"

subsection \<open>The record store: \<open>getSurveyData\<close>\<close>

text \<open>
  The state of \<open>localStorage\<close>: its items, or a storage the page may not read, where
  every access throws.
\<close>

datatype storage = Blocked | Items "jsstring \<rightharpoonup> jsstring"

fun localStorage_getItem :: "storage \<Rightarrow> jsstring \<Rightarrow> exn + jsstring option" where
  "localStorage_getItem Blocked k = Inl SecurityError"
| "localStorage_getItem (Items m) k = Inr (m k)"

text \<open>The body of the \<open>try\<close> block, and the function with its \<open>catch\<close>.\<close>

definition getSurveyData_try :: "host \<Rightarrow> storage \<Rightarrow> exn + json list" where
  "getSurveyData_try h st =
     (case localStorage_getItem st STORAGE_KEY of
        Inl e \<Rightarrow> Inl e
      | Inr raw \<Rightarrow>
          (case raw of
             None \<Rightarrow> Inr []
           | Some r \<Rightarrow>
               if r = [] then Inr []
               else (case JSON_parse h r of
                       Inl e \<Rightarrow> Inl e
                     | Inr parsed \<Rightarrow> Inr (case parsed of JArray xs \<Rightarrow> xs | _ \<Rightarrow> []))))"

definition getSurveyData :: "host \<Rightarrow> storage \<Rightarrow> exn + json list" where
  "getSurveyData h st =
     (case getSurveyData_try h st of Inl error \<Rightarrow> Inr [] | Inr data \<Rightarrow> Inr data)"

subsection \<open>Entries and \<open>sanitizeText\<close>\<close>

text \<open>
  An element of the stored array, read through the six property names the code uses;
  an absent property reads as \<open>JUndefined\<close>.
\<close>

record entry =
  timestamp :: jsval
  department :: jsval
  role :: jsval
  priority :: jsval
  issue :: jsval
  contact :: jsval

text \<open>
  \<open>(text || '').replace(/[\n\r]+/g, ' ').trim()\<close>. A truthy value that is not a string
  (a number, \<open>true\<close>) has no \<open>replace\<close> method, and the call throws.
\<close>

definition sanitizeText :: "jsval \<Rightarrow> exn + jsstring" where
  "sanitizeText text =
     (case or_else text (JString []) of
        JString s \<Rightarrow> Inr (sanitize_string s)
      | _ \<Rightarrow> Inl TypeError)"

subsection \<open>The form: the submit handler of \<open>initFormPage\<close>\<close>

text \<open>
  What \<open>FormData.get\<close> returns for the five fields of the form: a string, or \<open>null\<close>
  (\<open>None\<close>) for a field the form did not submit.
\<close>

record form_data =
  get_department :: "jsstring option"
  get_role :: "jsstring option"
  get_issue :: "jsstring option"
  get_priority :: "jsstring option"
  get_contact :: "jsstring option"

definition form_value :: "jsstring option \<Rightarrow> jsval" where
  "form_value v = (case v of None \<Rightarrow> JNull | Some s \<Rightarrow> JString s)"

definition MSG_DEPARTMENT :: jsstring where
  "MSG_DEPARTMENT =
     [0x90E8, 0x7F72, 0x3092, 0x9078, 0x629E, 0x3057, 0x3066, 0x304F, 0x3060, 0x3055, 0x3044, 0x3002]"

definition MSG_ISSUE_REQUIRED :: jsstring where
  "MSG_ISSUE_REQUIRED =
     [0x4ECA, 0x65E5, 0x306E, 0x56F0, 0x308A, 0x3054, 0x3068, 0x3092, 0x5165, 0x529B, 0x3057,
      0x3066, 0x304F, 0x3060, 0x3055, 0x3044, 0x3002]"

definition MSG_ISSUE_TOO_LONG :: jsstring where
  "MSG_ISSUE_TOO_LONG =
     [0x4ECA, 0x65E5, 0x306E, 0x56F0, 0x308A, 0x3054, 0x3068, 0x306F, 0x0032, 0x0030, 0x0030,
      0x6587, 0x5B57, 0x4EE5, 0x5185, 0x3067, 0x5165, 0x529B, 0x3057, 0x3066, 0x304F, 0x3060,
      0x3055, 0x3044, 0x3002]"

definition MSG_PRIORITY :: jsstring where
  "MSG_PRIORITY =
     [0x512A, 0x5148, 0x5EA6, 0x306F, 0x0031, 0x304B, 0x3089, 0x0035, 0x306E, 0x6570, 0x5024,
      0x3067, 0x5165, 0x529B, 0x3057, 0x3066, 0x304F, 0x3060, 0x3055, 0x3044, 0x3002]"

text \<open>The three checks, each appending to the \<open>errors\<close> array it is given.\<close>

definition check_department :: "jsval \<Rightarrow> jsstring list \<Rightarrow> jsstring list" where
  "check_department dept errors = (if \<not> ToBoolean dept then errors @ [MSG_DEPARTMENT] else errors)"

definition check_issue :: "jsstring \<Rightarrow> jsstring list \<Rightarrow> jsstring list" where
  "check_issue iss errors =
     (if iss = [] then errors @ [MSG_ISSUE_REQUIRED]
      else if 200 < length iss then errors @ [MSG_ISSUE_TOO_LONG]
      else errors)"

definition check_priority :: "jsnum \<Rightarrow> jsstring list \<Rightarrow> jsstring list" where
  "check_priority p errors =
     (if \<not> Number_isInteger p \<or> num_less p (Fin 1) \<or> num_less (Fin 5) p
      then errors @ [MSG_PRIORITY] else errors)"

text \<open>
  The outcome of a submission: an exception, the error messages shown to the user, or
  the entry handed to \<open>addSurveyEntry\<close>. \<open>now\<close> is \<open>new Date().toISOString()\<close>.
\<close>

datatype submission = Threw exn | Rejected "jsstring list" | Accepted entry

definition submit :: "jsstring \<Rightarrow> form_data \<Rightarrow> submission" where
  "submit now fd =
     (let dept = form_value (get_department fd)
      in case sanitizeText (form_value (get_role fd)) of
           Inl e \<Rightarrow> Threw e
         | Inr rol \<Rightarrow>
             (case sanitizeText (form_value (get_issue fd)) of
                Inl e \<Rightarrow> Threw e
              | Inr iss \<Rightarrow>
                  (let priorityValue = form_value (get_priority fd);
                       cont = (get_contact fd = Some (ascii ''on''));
                       prio = ToNumber priorityValue;
                       errors = check_priority prio (check_issue iss (check_department dept []))
                   in if 0 < length errors then Rejected errors
                      else Accepted \<lparr>timestamp = JString now, department = dept,
                             role = JString rol, priority = JNumber prio,
                             issue = JString iss, contact = JBool cont\<rparr>)))"

subsection \<open>The dashboard: \<open>renderDashboard\<close>\<close>

text \<open>
  The text of the average priority element. \<open>priority_number\<close> is the summand
  \<open>Number(entry.priority || 0)\<close> of the \<open>reduce\<close> callback.
\<close>

definition priority_number :: "entry \<Rightarrow> jsnum" where
  "priority_number e = ToNumber (or_else (priority e) (JNumber (Fin 0)))"

definition totalPriority :: "entry list \<Rightarrow> jsnum" where
  "totalPriority data = foldl (\<lambda>sum e. num_add sum (priority_number e)) (Fin 0) data"

definition averagePriorityText :: "host \<Rightarrow> entry list \<Rightarrow> jsstring" where
  "averagePriorityText h data =
     (if length data = 0 then ascii ''0.0''
      else Number_toFixed1 h (num_div (totalPriority data) (Fin (of_nat (length data)))))"

text \<open>
  The object \<open>counts\<close>: its keys in insertion order with their values. The values are
  counters that start at 0 and go up by 1; they are natural numbers here (an array has
  fewer than \<open>2^32\<close> elements, far below \<open>2^53\<close>, where adding 1 stops being exact).
\<close>

type_synonym counts = "(jsstring \<times> nat) list"

definition set_property :: "counts \<Rightarrow> jsstring \<Rightarrow> nat \<Rightarrow> counts" where
  "set_property acc k v =
     (if k \<in> fst ` set acc then map (\<lambda>(k', v'). if k' = k then (k', v) else (k', v')) acc
      else acc @ [(k, v)])"

definition initial_counts :: counts where
  "initial_counts = foldl (\<lambda>acc dept. set_property acc dept 0) [] DEPARTMENTS"

definition hasOwnProperty :: "counts \<Rightarrow> jsstring \<Rightarrow> bool" where
  "hasOwnProperty c k \<longleftrightarrow> k \<in> fst ` set c"

text \<open>
  \<open>counts[dept] += 1\<close> for a key that is an own property: both branches of the
  conditional that chooses \<open>dept\<close> give one, the second because the catch-all label is
  one of \<open>DEPARTMENTS\<close>.
\<close>

definition increment :: "counts \<Rightarrow> jsstring \<Rightarrow> counts" where
  "increment c k = map (\<lambda>(k', v). if k' = k then (k', v + 1) else (k', v)) c"

text \<open>The key under which an entry is counted.\<close>

definition bucket :: "host \<Rightarrow> counts \<Rightarrow> entry \<Rightarrow> jsstring" where
  "bucket h c e =
     (if hasOwnProperty c (ToString h (department e)) then ToString h (department e) else OTHER)"

definition departmentCounts :: "host \<Rightarrow> entry list \<Rightarrow> counts" where
  "departmentCounts h data = foldl (\<lambda>c e. increment c (bucket h c e)) initial_counts data"

text \<open>The recent entries: a copy of the data, sorted, cut to five.\<close>

definition by_timestamp :: "host \<Rightarrow> entry \<Rightarrow> entry \<Rightarrow> jsnum" where
  "by_timestamp h a b = num_sub (Date_value h (timestamp b)) (Date_value h (timestamp a))"

definition recentItems :: "host \<Rightarrow> entry list \<Rightarrow> entry list" where
  "recentItems h data = take 5 (Array_sort (by_timestamp h) data)"

definition ELLIPSIS :: jsstring where
  "ELLIPSIS = [0x2026]"

text \<open>
  The text of the paragraph of a recent entry. The test \<open>entry.issue && entry.issue.length > 20\<close>
  is reached only when \<open>sanitizeText\<close> returned, that is for a string or a falsy value.
\<close>

definition issue_longer_than_20 :: "jsval \<Rightarrow> bool" where
  "issue_longer_than_20 v = (case v of JString s \<Rightarrow> s \<noteq> [] \<and> 20 < length s | _ \<Rightarrow> False)"

definition issueText :: "entry \<Rightarrow> exn + jsstring" where
  "issueText e =
     (case sanitizeText (issue e) of
        Inl ex \<Rightarrow> Inl ex
      | Inr s \<Rightarrow>
          (let snippet = take 20 s
           in Inr (snippet @ (if issue_longer_than_20 (issue e) then ELLIPSIS else []))))"

subsection \<open>The CSV export: \<open>convertToCsv\<close>\<close>

definition header :: "jsstring list" where
  "header = [ascii ''timestamp'', ascii ''department'', ascii ''role'', ascii ''priority'',
             ascii ''issue'', ascii ''contact'']"

definition YES :: jsstring where
  "YES = [0x306F, 0x3044]"

definition NO :: jsstring where
  "NO = [0x3044, 0x3044, 0x3048]"

text \<open>\<open>text.replace(/"/g, '""')\<close>.\<close>

definition double_quotes :: "jsstring \<Rightarrow> jsstring" where
  "double_quotes text = concat (map (\<lambda>c. if c = 0x22 then [0x22, 0x22] else [c]) text)"

text \<open>\<open>value == null ? '' : String(value)\<close>, the first line of \<open>escapeCell\<close>.\<close>

definition cell_text :: "host \<Rightarrow> jsval \<Rightarrow> jsstring" where
  "cell_text h v = (if v = JUndefined \<or> v = JNull then [] else ToString h v)"

definition escapeCell :: "host \<Rightarrow> jsval \<Rightarrow> jsstring" where
  "escapeCell h v =
     (let text = cell_text h v;
          escaped = double_quotes text
      in [0x22] @ escaped @ [0x22])"

definition csv_row :: "host \<Rightarrow> entry \<Rightarrow> exn + jsstring" where
  "csv_row h e =
     (case sanitizeText (issue e) of
        Inl ex \<Rightarrow> Inl ex
      | Inr iss \<Rightarrow>
          Inr (join (ascii '','')
                 (map (escapeCell h)
                    [timestamp e, department e, or_else (role e) (JString []), priority e,
                     JString iss, JString (if ToBoolean (contact e) then YES else NO)])))"

text \<open>\<open>data.map\<close> with a callback that may throw: the first exception ends the loop.\<close>

fun csv_rows :: "host \<Rightarrow> entry list \<Rightarrow> exn + jsstring list" where
  "csv_rows h [] = Inr []"
| "csv_rows h (e # es) =
     (case csv_row h e of
        Inl ex \<Rightarrow> Inl ex
      | Inr r \<Rightarrow> (case csv_rows h es of Inl ex \<Rightarrow> Inl ex | Inr rs \<Rightarrow> Inr (r # rs)))"

definition convertToCsv :: "host \<Rightarrow> entry list \<Rightarrow> exn + jsstring" where
  "convertToCsv h data =
     (case csv_rows h data of
        Inl ex \<Rightarrow> Inl ex
      | Inr rows \<Rightarrow>
          Inr (join [0x0A] (join (ascii '','') (map (escapeCell h) (map JString header)) # rows)))"

section \<open>Vocabulary of the specification\<close>

text \<open>
  The outcome of validation as the specification speaks of it: the list of error
  messages (empty when the entry is accepted), and whether the priority error is
  among them.
\<close>

fun errors_of :: "submission \<Rightarrow> jsstring list" where
  "errors_of (Rejected errors) = errors"
| "errors_of _ = []"

definition priority_error :: "jsstring \<Rightarrow> form_data \<Rightarrow> bool" where
  "priority_error now fd \<longleftrightarrow> MSG_PRIORITY \<in> set (errors_of (submit now fd))"

text \<open>An integer literal: an optional sign and one or more decimal digits; its value.\<close>

definition is_integer_literal :: "jsstring \<Rightarrow> bool" where
  "is_integer_literal s = (case split_sign s of (neg, ds) \<Rightarrow> ds \<noteq> [] \<and> list_all is_digit ds)"

definition integer_literal_value :: "jsstring \<Rightarrow> int" where
  "integer_literal_value s =
     (case split_sign s of (neg, ds) \<Rightarrow> if neg then - digits_value 10 ds else digits_value 10 ds)"

text \<open>
  The bucketing policy (section 4.5): a department is counted under its own label if
  the label is one of the known categories, and under the catch-all label otherwise.
\<close>

definition department_bucket :: "host \<Rightarrow> entry \<Rightarrow> jsstring" where
  "department_bucket h e =
     (if ToString h (department e) \<in> set DEPARTMENTS then ToString h (department e) else OTHER)"

text \<open>
  The contribution of an entry to the sum of priorities when it is an integer, and the
  entries for which the sum is exact: those that contribute an integer from 0 to \<open>2^21\<close>
  (with fewer than \<open>2^32\<close> entries the sum stays below \<open>2^53\<close>).
\<close>

definition priority_int :: "entry \<Rightarrow> int" where
  "priority_int e = (case priority_number e of Fin q \<Rightarrow> \<lfloor>q\<rfloor> | _ \<Rightarrow> 0)"

definition small_integer_priority :: "entry \<Rightarrow> bool" where
  "small_integer_priority e \<longleftrightarrow>
     priority_number e = Fin (of_int (priority_int e)) \<and> 0 \<le> priority_int e \<and>
     priority_int e \<le> 2 ^ 21"

text \<open>The decimal text of \<open>n / 10\<close> with one fraction digit.\<close>

definition fixed1 :: "nat \<Rightarrow> jsstring" where
  "fixed1 n = dec_digits (n div 10) @ [0x2E] @ dec_digits (n mod 10)"

text \<open>The time of an entry in milliseconds, when its timestamp is a valid date.\<close>

definition valid_timestamp :: "host \<Rightarrow> entry \<Rightarrow> bool" where
  "valid_timestamp h e \<longleftrightarrow> Date_value h (timestamp e) \<noteq> NaN"

definition time_of :: "host \<Rightarrow> entry \<Rightarrow> int" where
  "time_of h e = (case Date_value h (timestamp e) of Fin q \<Rightarrow> \<lfloor>q\<rfloor> | _ \<Rightarrow> 0)"

text \<open>An entry whose issue is text, or absent: \<open>sanitizeText\<close> returns for it.\<close>

definition issue_is_text :: "entry \<Rightarrow> bool" where
  "issue_is_text e = (case sanitizeText (issue e) of Inr s \<Rightarrow> True | Inl _ \<Rightarrow> False)"

definition issue_text :: "entry \<Rightarrow> jsstring" where
  "issue_text e = (case sanitizeText (issue e) of Inr s \<Rightarrow> s | Inl _ \<Rightarrow> [])"

text \<open>The six cells of the CSV row of an entry, before quoting (section 4.4).\<close>

definition cells_of :: "host \<Rightarrow> entry \<Rightarrow> jsstring list" where
  "cells_of h e =
     [cell_text h (timestamp e), cell_text h (department e),
      cell_text h (or_else (role e) (JString [])), cell_text h (priority e),
      issue_text e, if ToBoolean (contact e) then YES else NO]"

text \<open>
  A cell in double quotes, every embedded double quote doubled; a row of cells; and a
  reader of one quoted cell at the start of a text, which gives the content of the cell
  and the rest of the text.
\<close>

definition quoted :: "jsstring \<Rightarrow> jsstring" where
  "quoted t = 0x22 # concat (map (\<lambda>c. if c = 0x22 then [0x22, 0x22] else [c]) t) @ [0x22]"

definition quoted_row :: "jsstring list \<Rightarrow> jsstring" where
  "quoted_row cells = join [0x2C] (map quoted cells)"

fun read_quoted_tail :: "jsstring \<Rightarrow> (jsstring \<times> jsstring) option" where
  "read_quoted_tail [] = None"
| "read_quoted_tail [c] = (if c = 0x22 then Some ([], []) else None)"
| "read_quoted_tail (c # d # r) =
     (if c = 0x22 then
        (if d = 0x22 then map_option (\<lambda>(t, rest). (0x22 # t, rest)) (read_quoted_tail r)
         else Some ([], d # r))
      else map_option (\<lambda>(t, rest). (c # t, rest)) (read_quoted_tail (d # r)))"

definition read_quoted :: "jsstring \<Rightarrow> (jsstring \<times> jsstring) option" where
  "read_quoted s = (case s of [] \<Rightarrow> None | c # r \<Rightarrow> if c = 0x22 then read_quoted_tail r else None)"

section \<open>Examples\<close>

text \<open>
  A host for the examples: it prints no digits, knows the dates of three timestamps and
  parses three JSON documents.
\<close>

definition example_host :: host where
  "example_host =
     \<lparr>number_digits = (\<lambda>q. []),
      Date_parse = (\<lambda>s. if s = ascii ''2024-01-01T00:00:00.000Z'' then Fin 1704067200000
                          else if s = ascii ''2024-01-02T00:00:00.000Z'' then Fin 1704153600000
                          else if s = ascii ''2024-01-03T00:00:00.000Z'' then Fin 1704240000000
                          else NaN),
      JSON_parse = (\<lambda>s. if s = ascii ''[]'' then Inr (JArray [])
                          else if s = ascii ''[null, 7]''
                            then Inr (JArray [JValue JNull, JValue (JNumber (Fin 7))])
                          else if s = ascii ''{}'' then Inr (JObject [])
                          else Inl SyntaxError)\<rparr>"

definition example_entry :: entry where
  "example_entry =
     \<lparr>timestamp = JString (ascii ''2024-01-01T00:00:00.000Z''),
      department = JString [0x55B6, 0x696D], role = JString [],
      priority = JNumber (Fin 3), issue = JString (ascii ''No printer ink''),
      contact = JBool False\<rparr>"

definition example_form :: form_data where
  "example_form =
     \<lparr>get_department = Some [0x55B6, 0x696D], get_role = Some [],
      get_issue = Some (ascii ''No printer ink''), get_priority = Some (ascii ''3''),
      get_contact = None\<rparr>"

text \<open>The example entry with another timestamp and another issue.\<close>

definition example_at :: "jsstring \<Rightarrow> jsstring \<Rightarrow> entry" where
  "example_at ts iss = example_entry\<lparr>timestamp := JString ts, issue := JString iss\<rparr>"

section \<open>Rounding to binary64\<close>

text \<open>The binary exponent brackets its argument.\<close>

lemma ilog2_ge1:
  assumes "1 \<le> a"
  shows "2 powi (ilog2 a) \<le> a \<and> a < 2 powi (ilog2 a + 1)"
proof -
  define n where "n = \<lfloor>a\<rfloor>"
  have n1: "1 \<le> n" using assms by (simp add: n_def le_floor_iff)
  then have npos: "0 < n" by simp
  have bl: "1 \<le> bitlen n" using npos by (simp add: bitlen_alt_def)
  from bitlen_bounds[OF npos]
  have lo: "2 ^ nat (bitlen n - 1) \<le> n" and hi: "n < 2 ^ nat (bitlen n)" by auto
  have e: "ilog2 a = bitlen n - 1" using assms by (simp add: ilog2_def n_def)
  have "(2::rat) powi (bitlen n - 1) = 2 ^ nat (bitlen n - 1)"
    using bl by (simp add: power_int_def)
  also have "\<dots> = of_int (2 ^ nat (bitlen n - 1))" by simp
  also have "\<dots> \<le> of_int n" using lo by (simp only: of_int_le_iff)
  also have "\<dots> \<le> a" by (simp add: n_def)
  finally have A: "2 powi (ilog2 a) \<le> a" by (simp add: e)
  have hi': "n + 1 \<le> 2 ^ nat (bitlen n)" using hi by simp
  have "a < of_int n + 1" unfolding n_def by linarith
  also have "\<dots> = of_int (n + 1)" by simp
  also have "\<dots> \<le> of_int (2 ^ nat (bitlen n))" using hi' by (simp only: of_int_le_iff)
  also have "\<dots> = (2::rat) ^ nat (bitlen n)" by simp
  also have "\<dots> = 2 powi (bitlen n)" using bl by (simp add: power_int_def)
  finally have B: "a < 2 powi (ilog2 a + 1)" by (simp add: e)
  from A B show ?thesis ..
qed

lemma ilog2_lt1:
  assumes "0 < a" "a < 1"
  shows "2 powi (ilog2 a) \<le> a \<and> a < 2 powi (ilog2 a + 1)"
proof -
  define p where "p = 1 / a"
  define m where "m = \<lceil>p\<rceil>"
  define k where "k = bitlen (m - 1)"
  have p1: "1 < p" using assms by (simp add: p_def)
  have m2: "2 \<le> m" using p1 unfolding m_def by linarith
  then have mpos: "0 < m - 1" by simp
  have k1: "1 \<le> k" using mpos by (simp add: k_def bitlen_alt_def)
  from bitlen_bounds[OF mpos]
  have lo: "2 ^ nat (k - 1) \<le> m - 1" and hi: "m - 1 < 2 ^ nat k" by (auto simp: k_def)
  have e: "ilog2 a = - k" using assms by (simp add: ilog2_def k_def m_def p_def)
  have pm: "p \<le> of_int m" "of_int (m - 1) < p" unfolding m_def by linarith+
  have hi': "m \<le> 2 ^ nat k" using hi by simp
  have "p \<le> of_int m" by fact
  also have "\<dots> \<le> of_int (2 ^ nat k)" using hi' by (simp only: of_int_le_iff)
  finally have phi: "p \<le> 2 ^ nat k" by simp
  have "(2::rat) ^ nat (k - 1) = of_int (2 ^ nat (k - 1))" by simp
  also have "\<dots> \<le> of_int (m - 1)" using lo by (simp only: of_int_le_iff)
  also have "\<dots> < p" by fact
  finally have plo: "2 ^ nat (k - 1) < p" .
  have a_eq: "a = 1 / p" using assms by (simp add: p_def)
  have ppos: "0 < p" using p1 by simp
  have A: "2 powi (- k) \<le> a"
  proof -
    have "(2::rat) powi (- k) = inverse (2 powi k)" by (rule power_int_minus)
    also have "\<dots> = 1 / 2 ^ nat k" using k1 by (simp add: power_int_def inverse_eq_divide)
    also have "\<dots> \<le> 1 / p" using phi ppos by (simp add: frac_le)
    finally show ?thesis by (simp add: a_eq)
  qed
  have B: "a < 2 powi (- k + 1)"
  proof -
    have "a = 1 / p" by fact
    also have "\<dots> < 1 / 2 ^ nat (k - 1)" using plo by (simp add: frac_less2)
    also have "\<dots> = 2 powi (- k + 1)"
    proof -
      have "(2::rat) powi (- k + 1) = 2 powi (- (k - 1))" by simp
      also have "\<dots> = inverse (2 powi (k - 1))" by (rule power_int_minus)
      also have "\<dots> = inverse (2 ^ nat (k - 1))" using k1 by (simp add: power_int_def)
      finally show ?thesis by (simp only: inverse_eq_divide)
    qed
    finally show ?thesis .
  qed
  from A B show ?thesis by (simp add: e)
qed

lemma ilog2_bounds:
  "0 < a \<Longrightarrow> 2 powi (ilog2 a) \<le> a \<and> a < 2 powi (ilog2 a + 1)"
  using ilog2_ge1[of a] ilog2_lt1[of a] by (cases "1 \<le> a") auto

lemma ilog2_ge:
  assumes "0 < a" "2 powi e0 \<le> a"
  shows "e0 \<le> ilog2 a"
proof (rule ccontr)
  assume "\<not> e0 \<le> ilog2 a"
  then have "ilog2 a + 1 \<le> e0" by simp
  then have "(2::rat) powi (ilog2 a + 1) \<le> 2 powi e0" by (rule power_int_increasing) simp
  with assms(2) ilog2_bounds[OF assms(1)] show False by simp
qed

lemma ilog2_le:
  assumes "0 < a" "a < 2 powi e1"
  shows "ilog2 a < e1"
proof (rule ccontr)
  assume "\<not> ilog2 a < e1"
  then have "e1 \<le> ilog2 a" by simp
  then have "(2::rat) powi e1 \<le> 2 powi (ilog2 a)" by (rule power_int_increasing) simp
  with assms(2) ilog2_bounds[OF assms(1)] show False by simp
qed

lemma round_half_even_of_int: "round_half_even (of_int n) = n"
  by (simp add: round_half_even_def)

lemma round_half_even_ge_floor: "\<lfloor>x\<rfloor> \<le> round_half_even x"
  by (simp add: round_half_even_def Let_def)

lemma round_half_even_lower:
  assumes "of_int n \<le> x"
  shows "n \<le> round_half_even x"
proof -
  have "n \<le> \<lfloor>x\<rfloor>" using assms by (simp add: le_floor_iff)
  with round_half_even_ge_floor[of x] show ?thesis by linarith
qed

lemma round_magnitude_lower:
  assumes "0 < a" "2 powi e0 \<le> a" "- 1022 \<le> e0"
  shows "2 powi e0 \<le> round_magnitude a"
proof -
  define e where "e = ilog2 a"
  define u :: rat where "u = 2 powi (e - 52)"
  have e0e: "e0 \<le> e" unfolding e_def using assms(1,2) by (rule ilog2_ge)
  then have emax: "max (ilog2 a) (- 1022) = e" using assms(3) by (simp add: e_def)
  have upos: "0 < u" by (simp add: u_def)
  have u_eq: "u = 2 powi e / 2 ^ 52" by (simp add: u_def power_int_diff)
  have "2 powi e \<le> a" using ilog2_bounds[OF assms(1)] by (simp add: e_def)
  then have "2 powi e / u \<le> a / u" using upos by (simp add: divide_right_mono)
  moreover have "2 powi e / u = of_int (2 ^ 52)" by (simp add: u_eq)
  ultimately have "of_int (2 ^ 52) \<le> a / u" by simp
  then have "2 ^ 52 \<le> round_half_even (a / u)" by (rule round_half_even_lower)
  then have "(of_int (2 ^ 52) :: rat) \<le> of_int (round_half_even (a / u))"
    by (simp only: of_int_le_iff)
  then have "of_int (2 ^ 52) * u \<le> of_int (round_half_even (a / u)) * u"
    using upos by (simp only: mult_le_cancel_right_pos)
  moreover have "of_int (2 ^ 52) * u = 2 powi e" by (simp add: u_eq)
  moreover have "round_magnitude a = of_int (round_half_even (a / u)) * u"
    by (simp add: round_magnitude_def Let_def emax u_def)
  moreover have "(2::rat) powi e0 \<le> 2 powi e" using e0e by (rule power_int_increasing) simp
  ultimately show ?thesis by simp
qed

lemma round_magnitude_of_int:
  assumes "0 < k" "k \<le> 2 ^ 53"
  shows "round_magnitude (of_int k) = of_int k"
proof -
  define a :: rat where "a = of_int k"
  define e where "e = ilog2 a"
  have apos: "0 < a" using assms(1) by (simp add: a_def)
  have "2 powi 0 \<le> a" using assms(1) by (simp add: a_def)
  then have e0: "0 \<le> e" unfolding e_def using apos ilog2_ge by blast
  then have emax: "max (ilog2 a) (- 1022) = e" by (simp add: e_def)
  have "a < 2 powi 54"
  proof -
    have "k < 2 ^ 54" using assms(2) by simp
    then have "(of_int k :: rat) < of_int (2 ^ 54)" by (simp only: of_int_less_iff)
    then show ?thesis by (simp add: a_def)
  qed
  then have e53: "e \<le> 53" unfolding e_def using apos ilog2_le by fastforce
  have int_quot: "\<exists>j. a / 2 powi (e - 52) = of_int j"
  proof (cases "e \<le> 52")
    case True
    then have "a / 2 powi (e - 52) = a * 2 powi (52 - e)"
      using power_int_minus[of "2::rat" "e - 52"] by (simp add: divide_inverse)
    also have "\<dots> = of_int (k * 2 ^ nat (52 - e))"
      using True by (simp add: a_def power_int_def)
    finally show ?thesis by blast
  next
    case False
    with e53 have e_eq: "e = 53" by simp
    have "2 powi 53 \<le> a" using ilog2_bounds[OF apos] by (simp add: e_def[symmetric] e_eq)
    then have "(of_int (2 ^ 53) :: rat) \<le> of_int k" by (simp add: a_def)
    then have "2 ^ 53 \<le> k" by (simp only: of_int_le_iff)
    with assms(2) have "k = 2 ^ 53" by simp
    then have "a / 2 powi (e - 52) = of_int (2 ^ 52)" by (simp add: a_def e_eq)
    then show ?thesis by blast
  qed
  then obtain j where j: "a / 2 powi (e - 52) = of_int j" ..
  have "round_magnitude a = of_int (round_half_even (a / 2 powi (e - 52))) * 2 powi (e - 52)"
    by (simp add: round_magnitude_def Let_def emax)
  also have "\<dots> = (a / 2 powi (e - 52)) * 2 powi (e - 52)"
    by (simp only: j round_half_even_of_int)
  also have "\<dots> = a" by simp
  finally show ?thesis by (simp add: a_def)
qed

lemma number_value_of_int:
  assumes "\<bar>k\<bar> \<le> 2 ^ 53"
  shows "number_value (of_int k) = Fin (of_int k)"
proof (cases "k = 0")
  case True
  then show ?thesis by (simp add: number_value_def)
next
  case False
  then have kpos: "0 < \<bar>k\<bar>" by simp
  have r: "round_magnitude \<bar>of_int k\<bar> = of_int \<bar>k\<bar>"
    using round_magnitude_of_int[OF kpos assms] by simp
  have "(of_int \<bar>k\<bar> :: rat) \<le> of_int (2 ^ 53)" using assms by (simp only: of_int_le_iff)
  then have small: "\<not> (2::rat) powi 1024 \<le> of_int \<bar>k\<bar>" by simp
  show ?thesis
    using False small by (simp add: number_value_def r Let_def del: of_int_abs)
qed

lemma number_value_pos:
  assumes "0 < q" "2 powi e0 \<le> q" "- 1022 \<le> e0"
  shows "number_value q = PosInf \<or> (\<exists>r. number_value q = Fin r \<and> 2 powi e0 \<le> r)"
  using round_magnitude_lower[of q e0] assms
  by (auto simp: number_value_def Let_def)

lemma number_value_neg:
  assumes "q < 0" "2 powi e0 \<le> - q" "- 1022 \<le> e0"
  shows "number_value q = NegInf \<or> (\<exists>r. number_value q = Fin r \<and> r \<le> - (2 powi e0))"
  using round_magnitude_lower[of "- q" e0] assms
  by (auto simp: number_value_def Let_def)

lemma number_value_int_range:
  "(\<exists>k. 1 \<le> k \<and> k \<le> 5 \<and> number_value (of_int n) = Fin (of_int k)) \<longleftrightarrow> 1 \<le> n \<and> n \<le> 5"
proof (cases "\<bar>n\<bar> \<le> 2 ^ 53")
  case True
  then show ?thesis by (auto simp: number_value_of_int)
next
  case False
  show ?thesis
  proof (cases "0 < n")
    case True
    with False have big: "2 ^ 53 \<le> n" by simp
    then have "(of_int (2 ^ 53) :: rat) \<le> of_int n" by (simp only: of_int_le_iff)
    then have "(2::rat) powi 53 \<le> of_int n" by simp
    moreover have "(0::rat) < of_int n" using True by simp
    ultimately have "number_value (of_int n) = PosInf \<or>
        (\<exists>r. number_value (of_int n) = Fin r \<and> 2 powi 53 \<le> r)"
      by (intro number_value_pos) simp_all
    moreover have "\<not> (2::rat) powi 53 \<le> of_int k" if "k \<le> 5" for k :: int
    proof
      assume "(2::rat) powi 53 \<le> of_int k"
      then have "(of_int (2 ^ 53) :: rat) \<le> of_int k" by simp
      then have "2 ^ 53 \<le> k" by (simp only: of_int_le_iff)
      with that show False by simp
    qed
    ultimately show ?thesis using big by auto
  next
    case neg: False
    with False have big: "n \<le> - (2 ^ 53)" by simp
    then have "(of_int n :: rat) \<le> of_int (- (2 ^ 53))" by (simp only: of_int_le_iff)
    then have "(2::rat) powi 53 \<le> - of_int n" by simp
    moreover have "(of_int n :: rat) < 0" using big by simp
    ultimately have "number_value (of_int n) = NegInf \<or>
        (\<exists>r. number_value (of_int n) = Fin r \<and> r \<le> - (2 powi 53))"
      by (intro number_value_neg) simp_all
    moreover have "\<not> (of_int k :: rat) \<le> - (2 powi 53)" if "1 \<le> k" for k :: int
    proof
      assume "(of_int k :: rat) \<le> - (2 powi 53)"
      then have "(of_int k :: rat) \<le> of_int (- (2 ^ 53))" by simp
      then have "k \<le> - (2 ^ 53)" by (simp only: of_int_le_iff)
      with that show False by simp
    qed
    ultimately show ?thesis using big by auto
  qed
qed

section \<open>Decimal digits and \<open>toFixed\<close>\<close>

lemma floor_rat_numeral [simp]:
  "\<lfloor>(numeral a :: rat) / numeral b\<rfloor> = numeral a div numeral b"
  using floor_divide_of_int_eq[of "numeral a" "numeral b", where ?'a = rat] by simp

lemma number_value_numeral:
  "(numeral k :: int) \<le> 2 ^ 53 \<Longrightarrow> number_value (numeral k) = Fin (numeral k)"
  using number_value_of_int[of "numeral k"] by simp

lemma dec_digits_small [simp]: "n < 10 \<Longrightarrow> dec_digits n = [of_nat (48 + n)]"
  by (subst dec_digits.simps) simp

lemma dec_digits_large [simp]:
  "\<not> n < 10 \<Longrightarrow> dec_digits n = dec_digits (n div 10) @ [of_nat (48 + n mod 10)]"
  by (subst dec_digits.simps) simp

lemma dec_digits_nonempty: "dec_digits n \<noteq> []"
  by (cases "n < 10") simp_all

lemma toFixed1_digits:
  "(let m = dec_digits n; m' = (if length m \<le> 1 then 0x30 # m else m)
    in butlast m' @ [0x2E] @ [last m']) = fixed1 n"
proof (cases "n < 10")
  case True
  then show ?thesis by (simp add: fixed1_def Let_def)
next
  case False
  then show ?thesis by (simp add: fixed1_def Let_def dec_digits_nonempty)
qed

lemma Number_toFixed1_fixed1:
  assumes "0 \<le> q" "q < 10 ^ 21"
  shows "Number_toFixed1 h (Fin q) = fixed1 (nat \<lfloor>q * 10 + 1 / 2\<rfloor>)"
  using assms toFixed1_digits[of "nat \<lfloor>q * 10 + 1 / 2\<rfloor>"]
  by (simp add: Number_toFixed1_def Let_def)

lemma round_tenths:
  assumes "0 \<le> (q::rat)"
  shows "\<bar>of_nat (nat \<lfloor>q * 10 + 1 / 2\<rfloor>) / 10 - q\<bar> \<le> 1 / 20"
proof -
  define n where "n = \<lfloor>q * 10 + 1 / 2\<rfloor>"
  have "0 \<le> n" unfolding n_def using assms by (simp add: le_floor_iff)
  then have nn: "(of_nat (nat n) :: rat) = of_int n" by simp
  have "of_int n \<le> q * 10 + 1 / 2" "q * 10 + 1 / 2 < of_int n + 1"
    unfolding n_def by linarith+
  then have "of_int n / 10 - q \<le> 1 / 20" "- (of_int n / 10 - q) \<le> 1 / 20" by linarith+
  then have "\<bar>of_int n / 10 - q\<bar> \<le> 1 / 20" by (rule abs_leI)
  then show ?thesis unfolding n_def[symmetric] nn .
qed

section \<open>Sanitizing text\<close>

lemma replace_newline_runs_no_newline:
  "c \<in> set (replace_newline_runs b s) \<Longrightarrow> \<not> is_newline c"
  by (induction b s rule: replace_newline_runs.induct) (auto simp: is_newline_def split: if_splits)

lemma replace_newline_runs_id:
  "\<forall>c \<in> set s. \<not> is_newline c \<Longrightarrow> replace_newline_runs b s = s"
  by (induction b s rule: replace_newline_runs.induct) auto

lemma length_replace_newline_runs: "length (replace_newline_runs b s) \<le> length s"
  by (induction b s rule: replace_newline_runs.induct) auto

lemma set_trim: "c \<in> set (trim s) \<Longrightarrow> c \<in> set s"
proof -
  assume "c \<in> set (trim s)"
  then have "c \<in> set (dropWhile is_trimmed_char (rev (dropWhile is_trimmed_char s)))"
    by (simp add: trim_def)
  then have "c \<in> set (rev (dropWhile is_trimmed_char s))" by (rule set_dropWhileD)
  then have "c \<in> set (dropWhile is_trimmed_char s)" by simp
  then show "c \<in> set s" by (rule set_dropWhileD)
qed

lemma length_trim: "length (trim s) \<le> length s"
proof -
  have "length (trim s) \<le> length (dropWhile is_trimmed_char s)"
    by (simp add: trim_def) (metis length_dropWhile_le length_rev)
  also have "\<dots> \<le> length s" by (rule length_dropWhile_le)
  finally show ?thesis .
qed

lemma dropWhile_self: "xs = [] \<or> \<not> P (hd xs) \<Longrightarrow> dropWhile P xs = xs"
  by (cases xs) auto

lemma trim_idem: "trim (trim s) = trim s"
proof -
  define z where "z = dropWhile is_trimmed_char s"
  define a where "a = dropWhile is_trimmed_char (rev z)"
  have t: "trim s = rev a" by (simp add: trim_def z_def a_def)
  have z_hd: "z = [] \<or> \<not> is_trimmed_char (hd z)"
    unfolding z_def using hd_dropWhile[of is_trimmed_char s] by blast
  have a_last: "a = [] \<or> \<not> is_trimmed_char (last a)"
  proof (cases "a = []")
    case True then show ?thesis by simp
  next
    case False
    obtain p where p: "rev z = p @ a"
      unfolding a_def by (metis takeWhile_dropWhile_id)
    with False have "last a = last (rev z)" by simp
    moreover have "z \<noteq> []" using False by (auto simp: a_def)
    ultimately have "last a = hd z" by (simp add: last_rev)
    with z_hd \<open>z \<noteq> []\<close> show ?thesis by simp
  qed
  then have "rev a = [] \<or> \<not> is_trimmed_char (hd (rev a))"
    by (cases "a = []") (simp_all add: hd_rev)
  then have 1: "dropWhile is_trimmed_char (rev a) = rev a" by (rule dropWhile_self)
  have 2: "dropWhile is_trimmed_char a = a" by (simp add: a_def)
  show ?thesis unfolding t by (simp add: trim_def 1 2)
qed

lemma sanitize_string_idem: "sanitize_string (sanitize_string s) = sanitize_string s"
proof -
  have "\<forall>c \<in> set (sanitize_string s). \<not> is_newline c"
    unfolding sanitize_string_def using set_trim replace_newline_runs_no_newline by blast
  then have "replace_newline_runs False (sanitize_string s) = sanitize_string s"
    by (rule replace_newline_runs_id)
  then show ?thesis by (simp add: sanitize_string_def trim_idem)
qed

lemma length_sanitize_string: "length (sanitize_string s) \<le> length s"
  unfolding sanitize_string_def
  using length_trim[of "replace_newline_runs False s"] length_replace_newline_runs[of False s]
  by linarith

lemma sanitizeText_JString: "sanitizeText (JString s) = Inr (sanitize_string s)"
proof (cases "s = []")
  case True
  then show ?thesis by (simp add: sanitizeText_def or_else_def)
next
  case False
  then show ?thesis by (simp add: sanitizeText_def or_else_def)
qed

lemma sanitizeText_form_value:
  "sanitizeText (form_value v) = Inr (sanitize_string (case v of None \<Rightarrow> [] | Some s \<Rightarrow> s))"
  by (cases v) (simp_all add: form_value_def sanitizeText_JString, simp add: sanitizeText_def or_else_def)

section \<open>Validation of the form\<close>

lemma check_issue_Cons: "check_issue iss (m # errors) = m # check_issue iss errors"
  by (simp add: check_issue_def)

lemma check_priority_Cons: "check_priority p (m # errors) = m # check_priority p errors"
  by (simp add: check_priority_def)

lemma submit_eq:
  "submit now fd =
     (let iss = sanitize_string (case get_issue fd of None \<Rightarrow> [] | Some s \<Rightarrow> s);
          prio = ToNumber (form_value (get_priority fd));
          errors = check_priority prio (check_issue iss (check_department (form_value (get_department fd)) []))
      in if errors \<noteq> [] then Rejected errors
         else Accepted \<lparr>timestamp = JString now, department = form_value (get_department fd),
                role = JString (sanitize_string (case get_role fd of None \<Rightarrow> [] | Some s \<Rightarrow> s)),
                priority = JNumber prio, issue = JString iss,
                contact = JBool (get_contact fd = Some (ascii ''on''))\<rparr>)"
  by (simp add: submit_def sanitizeText_form_value Let_def)

text \<open>
  Claim C7. Whenever the department field is empty (absent, or the empty string), the
  submission is rejected and the error list holds the department message; the checks of
  the issue and of the priority still run, and their messages follow it.
\<close>

theorem department_required:
  assumes "get_department fd = None \<or> get_department fd = Some []"
  shows "\<exists>errors. submit now fd = Rejected errors \<and> MSG_DEPARTMENT \<in> set errors \<and>
           errors = MSG_DEPARTMENT #
             check_priority (ToNumber (form_value (get_priority fd)))
               (check_issue (sanitize_string (case get_issue fd of None \<Rightarrow> [] | Some s \<Rightarrow> s)) [])"
proof -
  have "\<not> ToBoolean (form_value (get_department fd))"
    using assms by (auto simp: form_value_def)
  then have "check_department (form_value (get_department fd)) [] = [MSG_DEPARTMENT]"
    by (simp add: check_department_def)
  then show ?thesis
    by (simp add: submit_eq Let_def check_issue_Cons check_priority_Cons)
qed

lemma check_issue_Nil:
  "check_issue iss errors = [] \<Longrightarrow> errors = [] \<and> iss \<noteq> [] \<and> length iss \<le> 200"
  by (auto simp: check_issue_def split: if_splits)

lemma check_priority_Nil:
  "check_priority p errors = [] \<Longrightarrow>
     errors = [] \<and> (\<exists>k. p = Fin (of_int k) \<and> 1 \<le> k \<and> k \<le> 5)"
proof -
  assume a: "check_priority p errors = []"
  then have e: "errors = []" and ok: "Number_isInteger p" "\<not> num_less p (Fin 1)" "\<not> num_less (Fin 5) p"
    by (auto simp: check_priority_def split: if_splits)
  from ok(1) obtain q where q: "p = Fin q" "of_int \<lfloor>q\<rfloor> = q" by (cases p) auto
  from ok(2,3) q have "1 \<le> q" "q \<le> 5" by auto
  then have "1 \<le> \<lfloor>q\<rfloor>" "\<lfloor>q\<rfloor> \<le> 5" by (simp_all add: le_floor_iff floor_le_iff)
  with q e show ?thesis by metis
qed

text \<open>
  Claim C1. When validation produces no errors, the priority of the constructed entry is
  an integer from 1 to 5, and its issue is the sanitized text of the issue field, is
  unchanged by sanitizing it again, and has between 1 and 200 code units.
\<close>

theorem accepted_entry_valid:
  assumes "submit now fd = Accepted e"
  shows "(\<exists>k. priority e = JNumber (Fin (of_int k)) \<and> 1 \<le> k \<and> k \<le> 5) \<and>
         (\<exists>s. issue e = JString s \<and> sanitizeText (form_value (get_issue fd)) = Inr s \<and>
               sanitizeText (issue e) = Inr s \<and> 1 \<le> length s \<and> length s \<le> 200)"
proof -
  define iss where "iss = sanitize_string (case get_issue fd of None \<Rightarrow> [] | Some s \<Rightarrow> s)"
  define prio where "prio = ToNumber (form_value (get_priority fd))"
  define errors where
    "errors = check_priority prio (check_issue iss (check_department (form_value (get_department fd)) []))"
  from assms have none: "errors = []"
    by (auto simp: submit_eq Let_def errors_def prio_def iss_def split: if_splits)
  from assms have e: "priority e = JNumber prio" "issue e = JString iss"
    by (auto simp: submit_eq Let_def errors_def prio_def iss_def split: if_splits)
  from none obtain k where k: "prio = Fin (of_int k)" "1 \<le> k" "k \<le> 5"
    and ci: "check_issue iss (check_department (form_value (get_department fd)) []) = []"
    unfolding errors_def using check_priority_Nil by blast
  from ci have len: "iss \<noteq> []" "length iss \<le> 200" using check_issue_Nil by blast+
  have "sanitizeText (issue e) = Inr iss"
    by (simp add: e sanitizeText_JString iss_def sanitize_string_idem)
  moreover have "sanitizeText (form_value (get_issue fd)) = Inr iss"
    by (simp add: sanitizeText_form_value iss_def)
  moreover have "1 \<le> length iss" using len(1) by (cases iss) simp_all
  ultimately show ?thesis using e k len(2) by auto
qed

subsection \<open>The priority field\<close>

lemma digit_below_spaces:
  assumes "(c::uchar) \<le> 0x39"
  shows "\<not> 0x2000 \<le> c"
proof
  assume "0x2000 \<le> c"
  from this assms have "(0x2000::uchar) \<le> 0x39" by (rule order_trans)
  then show False by simp
qed

lemma digit_not_trimmed: "is_digit c \<Longrightarrow> \<not> is_trimmed_char c"
  by (auto simp: is_digit_def is_trimmed_char_def is_white_space_def is_line_terminator_def
      digit_below_spaces)

lemma digit_not_letter:
  "is_digit c \<Longrightarrow> c \<noteq> 0x78 \<and> c \<noteq> 0x58 \<and> c \<noteq> 0x6F \<and> c \<noteq> 0x4F \<and> c \<noteq> 0x62 \<and> c \<noteq> 0x42 \<and> c \<noteq> 0x49"
  by (auto simp: is_digit_def)

lemma sign_not_trimmed: "c = 0x2D \<or> c = 0x2B \<Longrightarrow> \<not> is_trimmed_char c \<and> c \<noteq> 0x30 \<and> \<not> is_digit c"
  by (auto simp: is_trimmed_char_def is_white_space_def is_line_terminator_def is_digit_def)

lemma trim_self:
  assumes "s \<noteq> []" "\<not> is_trimmed_char (hd s)" "\<not> is_trimmed_char (last s)"
  shows "trim s = s"
proof -
  have 1: "dropWhile is_trimmed_char s = s" using assms(1,2) by (cases s) auto
  have "rev s \<noteq> []" "\<not> is_trimmed_char (hd (rev s))" using assms(1,3) by (simp_all add: hd_rev)
  then have 2: "dropWhile is_trimmed_char (rev s) = rev s" by (cases "rev s") auto
  show ?thesis by (simp add: trim_def 1 2)
qed

lemma takeWhile_all: "list_all P xs \<Longrightarrow> takeWhile P xs = xs \<and> dropWhile P xs = []"
  by (induction xs) auto

lemma StrUnsignedDecimalLiteral_digits:
  assumes "ds \<noteq> []" "list_all is_digit ds"
  shows "StrUnsignedDecimalLiteral ds = Some (of_int (digits_value 10 ds))"
proof -
  from takeWhile_all[OF assms(2)]
  have tw: "takeWhile is_digit ds = ds" and dw: "dropWhile is_digit ds = []" by blast+
  show ?thesis
    using assms(1) by (simp add: StrUnsignedDecimalLiteral_def ExponentPart_def Let_def tw dw)
qed

lemma digits_not_Infinity:
  assumes "ds \<noteq> []" "list_all is_digit ds"
  shows "ds \<noteq> ascii ''Infinity''"
proof
  assume "ds = ascii ''Infinity''"
  with assms(2) have "is_digit 0x49" by (simp add: ascii_def)
  then show False by (simp add: is_digit_def)
qed

lemma NonDecimal_integer_literal:
  assumes "is_integer_literal s"
  shows "NonDecimalIntegerLiteral s = None"
proof (cases s)
  case Nil
  then show ?thesis by (simp add: NonDecimalIntegerLiteral_def)
next
  case (Cons z r)
  show ?thesis
  proof (cases r)
    case Nil
    with Cons show ?thesis by (simp add: NonDecimalIntegerLiteral_def)
  next
    case (Cons p ds)
    show ?thesis
    proof (cases "z = 0x30")
      case False
      with \<open>s = z # r\<close> Cons show ?thesis by (simp add: NonDecimalIntegerLiteral_def)
    next
      case True
      with assms \<open>s = z # r\<close> Cons have "is_digit p"
        by (simp add: is_integer_literal_def split_sign_def)
      then show ?thesis
        using \<open>s = z # r\<close> Cons digit_not_letter[of p]
        by (simp add: NonDecimalIntegerLiteral_def)
    qed
  qed
qed

lemma trim_integer_literal:
  assumes "is_integer_literal s"
  shows "trim s = s \<and> s \<noteq> []"
proof -
  obtain neg ds where sp: "split_sign s = (neg, ds)" by (cases "split_sign s")
  with assms have ds: "ds \<noteq> []" "list_all is_digit ds" by (simp_all add: is_integer_literal_def)
  from sp ds have ne: "s \<noteq> []" by (auto simp: split_sign_def)
  then obtain c r where s: "s = c # r" by (cases s) auto
  have suffix: "s = ds \<or> (s = c # ds \<and> (c = 0x2D \<or> c = 0x2B))"
    using sp s by (auto simp: split_sign_def split: if_splits)
  have hd_ok: "\<not> is_trimmed_char (hd s)"
  proof (cases "s = ds")
    case True
    with ds have "is_digit (hd s)" by (cases ds) auto
    then show ?thesis by (rule digit_not_trimmed)
  next
    case False
    with suffix s show ?thesis using sign_not_trimmed[of c] by auto
  qed
  have "last s = last ds" using suffix ds(1) by auto
  moreover have "is_digit (last ds)" using ds by (simp add: list_all_iff)
  ultimately have last_ok: "\<not> is_trimmed_char (last s)" by (simp add: digit_not_trimmed)
  from trim_self[OF ne hd_ok last_ok] ne show ?thesis ..
qed

lemma StringToNumber_integer_literal:
  assumes "is_integer_literal s"
  shows "StringToNumber s = number_value (of_int (integer_literal_value s))"
proof -
  obtain neg ds where sp: "split_sign s = (neg, ds)" by (cases "split_sign s")
  with assms have ds: "ds \<noteq> []" "list_all is_digit ds" by (simp_all add: is_integer_literal_def)
  have "StrDecimalLiteral s = number_value (of_int (integer_literal_value s))"
    using sp digits_not_Infinity[OF ds] StrUnsignedDecimalLiteral_digits[OF ds]
    by (simp add: StrDecimalLiteral_def integer_literal_value_def)
  then show ?thesis
    using trim_integer_literal[OF assms] NonDecimal_integer_literal[OF assms]
    by (simp add: StringToNumber_def)
qed

lemma MSG_PRIORITY_distinct:
  "MSG_PRIORITY \<noteq> MSG_DEPARTMENT" "MSG_PRIORITY \<noteq> MSG_ISSUE_REQUIRED"
  "MSG_PRIORITY \<noteq> MSG_ISSUE_TOO_LONG"
  by (simp_all add: MSG_PRIORITY_def MSG_DEPARTMENT_def MSG_ISSUE_REQUIRED_def
      MSG_ISSUE_TOO_LONG_def)

lemma MSG_PRIORITY_other_checks:
  "MSG_PRIORITY \<notin> set (check_issue iss (check_department d []))"
  by (simp add: check_issue_def check_department_def MSG_PRIORITY_distinct)

lemma priority_in_range_iff:
  "(Number_isInteger p \<and> \<not> num_less p (Fin 1) \<and> \<not> num_less (Fin 5) p)
     \<longleftrightarrow> (\<exists>k. 1 \<le> k \<and> k \<le> 5 \<and> p = Fin (of_int k))"
proof
  assume "Number_isInteger p \<and> \<not> num_less p (Fin 1) \<and> \<not> num_less (Fin 5) p"
  then have "check_priority p [] = []" by (simp add: check_priority_def)
  then show "\<exists>k. 1 \<le> k \<and> k \<le> 5 \<and> p = Fin (of_int k)"
    using check_priority_Nil by blast
next
  assume "\<exists>k. 1 \<le> k \<and> k \<le> 5 \<and> p = Fin (of_int k)"
  then show "Number_isInteger p \<and> \<not> num_less p (Fin 1) \<and> \<not> num_less (Fin 5) p"
    by auto
qed

lemma priority_error_check:
  "priority_error now fd \<longleftrightarrow>
     \<not> (\<exists>k. 1 \<le> k \<and> k \<le> 5 \<and> ToNumber (form_value (get_priority fd)) = Fin (of_int k))"
proof -
  define p where "p = ToNumber (form_value (get_priority fd))"
  define others where
    "others = check_issue (sanitize_string (case get_issue fd of None \<Rightarrow> [] | Some s \<Rightarrow> s))
       (check_department (form_value (get_department fd)) [])"
  have no: "MSG_PRIORITY \<notin> set others" unfolding others_def by (rule MSG_PRIORITY_other_checks)
  show ?thesis
  proof (cases "\<exists>k. 1 \<le> k \<and> k \<le> 5 \<and> p = Fin (of_int k)")
    case True
    then have "Number_isInteger p \<and> \<not> num_less p (Fin 1) \<and> \<not> num_less (Fin 5) p"
      by (rule priority_in_range_iff[THEN iffD2])
    then have "check_priority p others = others" by (simp add: check_priority_def)
    then have "\<not> priority_error now fd"
      using no by (simp add: priority_error_def submit_eq Let_def p_def others_def)
    with True show ?thesis unfolding p_def by blast
  next
    case False
    then have "\<not> (Number_isInteger p \<and> \<not> num_less p (Fin 1) \<and> \<not> num_less (Fin 5) p)"
      using priority_in_range_iff[THEN iffD1] by blast
    then have "check_priority p others = others @ [MSG_PRIORITY]"
      by (auto simp: check_priority_def)
    then have "priority_error now fd"
      by (simp add: priority_error_def submit_eq Let_def p_def others_def)
    with False show ?thesis unfolding p_def by blast
  qed
qed

text \<open>
  Claim C8, as amended. Validation reports the priority error exactly when the number
  that \<open>Number\<close> makes of the field is not an integer from 1 to 5. For a field that is
  an integer literal this is exactly when the value of the literal is outside 1 to 5.
\<close>

theorem priority_error_iff:
  "(priority_error now fd \<longleftrightarrow>
      \<not> (\<exists>k. 1 \<le> k \<and> k \<le> 5 \<and> ToNumber (form_value (get_priority fd)) = Fin (of_int k))) \<and>
   (get_priority fd = Some s \<and> is_integer_literal s \<longrightarrow>
      (priority_error now fd \<longleftrightarrow> \<not> (1 \<le> integer_literal_value s \<and> integer_literal_value s \<le> 5)))"
proof -
  have "priority_error now fd \<longleftrightarrow> \<not> (1 \<le> integer_literal_value s \<and> integer_literal_value s \<le> 5)"
    if "get_priority fd = Some s" "is_integer_literal s"
  proof -
    have "ToNumber (form_value (get_priority fd)) = number_value (of_int (integer_literal_value s))"
      using that by (simp add: form_value_def StringToNumber_integer_literal)
    then show ?thesis
      by (simp only: priority_error_check number_value_int_range)
  qed
  then show ?thesis using priority_error_check by blast
qed

subsection \<open>Examples\<close>

lemma example_literals:
  "is_integer_literal (ascii ''3'')" "integer_literal_value (ascii ''3'') = 3"
  "is_integer_literal (ascii ''9'')" "integer_literal_value (ascii ''9'') = 9"
  "is_integer_literal (ascii ''7'')" "integer_literal_value (ascii ''7'') = 7"
  "is_integer_literal (ascii ''+4'')" "integer_literal_value (ascii ''+4'') = 4"
  "\<not> is_integer_literal (ascii ''3.0'')"
  by (simp_all add: is_integer_literal_def integer_literal_value_def split_sign_def ascii_def
      is_digit_def digits_value_def digit_value_def)

lemma example_numbers:
  "StringToNumber (ascii ''3'') = Fin 3"
  "StringToNumber (ascii ''9'') = Fin 9"
  by (simp_all add: StringToNumber_integer_literal example_literals number_value_numeral)

lemma example_decimal: "StringToNumber (ascii ''3.0'') = Fin 3"
proof -
  have t: "trim (ascii ''3.0'') = ascii ''3.0''"
    by (rule trim_self) (simp_all add: ascii_def is_trimmed_char_def is_white_space_def
        is_line_terminator_def)
  have n: "NonDecimalIntegerLiteral (ascii ''3.0'') = None"
    by (simp add: NonDecimalIntegerLiteral_def ascii_def)
  have d: "StrUnsignedDecimalLiteral (ascii ''3.0'') = Some 3"
    by (simp add: StrUnsignedDecimalLiteral_def ExponentPart_def Let_def ascii_def is_digit_def
        digits_value_def digit_value_def)
  have i: "ascii ''3.0'' \<noteq> ascii ''Infinity''" "ascii ''3.0'' \<noteq> []"
    "split_sign (ascii ''3.0'') = (False, ascii ''3.0'')"
    by (simp_all add: ascii_def split_sign_def)
  show ?thesis
    by (simp add: StringToNumber_def t n i StrDecimalLiteral_def d number_value_numeral)
qed

lemma example_high: "StringToNumber (ascii ''high'') = NaN"
proof -
  have t: "trim (ascii ''high'') = ascii ''high''"
    by (rule trim_self) (simp_all add: ascii_def is_trimmed_char_def is_white_space_def
        is_line_terminator_def)
  have n: "NonDecimalIntegerLiteral (ascii ''high'') = None"
    by (simp add: NonDecimalIntegerLiteral_def ascii_def)
  have d: "StrUnsignedDecimalLiteral (ascii ''high'') = None"
    by (simp add: StrUnsignedDecimalLiteral_def Let_def ascii_def is_digit_def)
  have i: "ascii ''high'' \<noteq> ascii ''Infinity''" "ascii ''high'' \<noteq> []"
    "split_sign (ascii ''high'') = (False, ascii ''high'')"
    by (simp_all add: ascii_def split_sign_def)
  show ?thesis
    by (simp add: StringToNumber_def t n i StrDecimalLiteral_def d)
qed

lemma example_issue:
  "sanitize_string (ascii ''No printer ink'') = ascii ''No printer ink''"
  "sanitize_string [] = []"
  "length (ascii ''No printer ink'') = 14"
  "ascii ''No printer ink'' \<noteq> []"
  by (simp_all add: sanitize_string_def trim_def ascii_def is_newline_def is_trimmed_char_def
      is_white_space_def is_line_terminator_def)

lemma example_submit:
  "submit now example_form = Accepted (example_entry\<lparr>timestamp := JString now\<rparr>)"
  "submit now (example_form\<lparr>get_priority := Some (ascii ''3.0'')\<rparr>)
     = Accepted (example_entry\<lparr>timestamp := JString now\<rparr>)"
  by (simp_all add: submit_eq Let_def example_form_def example_entry_def form_value_def
      example_numbers example_decimal example_issue check_priority_def check_issue_def
      check_department_def)

theorem accepted_entry_valid_witness:
  "submit [] example_form = Accepted (example_entry\<lparr>timestamp := JString []\<rparr>) \<and>
   (\<exists>k. priority (example_entry\<lparr>timestamp := JString []\<rparr>) = JNumber (Fin (of_int k)) \<and> 1 \<le> k \<and> k \<le> 5) \<and>
   (\<exists>s. issue (example_entry\<lparr>timestamp := JString []\<rparr>) = JString s \<and>
         sanitizeText (form_value (get_issue example_form)) = Inr s \<and>
         sanitizeText (issue (example_entry\<lparr>timestamp := JString []\<rparr>)) = Inr s \<and>
         1 \<le> length s \<and> length s \<le> 200)"
proof -
  have a: "submit [] example_form = Accepted (example_entry\<lparr>timestamp := JString []\<rparr>)"
    by (rule example_submit)
  from accepted_entry_valid[OF a] a show ?thesis by blast
qed

theorem department_required_witness:
  "get_department (example_form\<lparr>get_department := Some []\<rparr>) = Some [] \<and>
   submit [] (example_form\<lparr>get_department := Some [], get_priority := Some (ascii ''9'')\<rparr>)
     = Rejected [MSG_DEPARTMENT, MSG_PRIORITY]"
proof -
  from department_required[of "example_form\<lparr>get_department := Some [], get_priority := Some (ascii ''9'')\<rparr>" "[]"]
  show ?thesis
    by (simp add: example_form_def form_value_def example_numbers example_issue
        check_priority_def check_issue_def)
qed

text \<open>
  The claim as stated fails for the field \<open>3.0\<close>: it is not an integer literal, and
  validation accepts it with priority 3 and reports no priority error.
\<close>

theorem priority_error_counterexample:
  "\<not> is_integer_literal (ascii ''3.0'') \<and>
   submit [] (example_form\<lparr>get_priority := Some (ascii ''3.0'')\<rparr>)
     = Accepted (example_entry\<lparr>timestamp := JString []\<rparr>) \<and>
   \<not> priority_error [] (example_form\<lparr>get_priority := Some (ascii ''3.0'')\<rparr>) \<and>
   \<not> (priority_error [] (example_form\<lparr>get_priority := Some (ascii ''3.0'')\<rparr>) \<longleftrightarrow>
        \<not> (is_integer_literal (ascii ''3.0'') \<and> 1 \<le> integer_literal_value (ascii ''3.0'') \<and>
           integer_literal_value (ascii ''3.0'') \<le> 5))"
proof -
  have 1: "\<not> is_integer_literal (ascii ''3.0'')" by (rule example_literals)
  have 2: "submit [] (example_form\<lparr>get_priority := Some (ascii ''3.0'')\<rparr>)
     = Accepted (example_entry\<lparr>timestamp := JString []\<rparr>)" by (rule example_submit)
  then have 3: "\<not> priority_error [] (example_form\<lparr>get_priority := Some (ascii ''3.0'')\<rparr>)"
    by (simp add: priority_error_def)
  from 1 2 3 show ?thesis by simp
qed

theorem priority_error_iff_witness:
  "get_priority (example_form\<lparr>get_priority := Some (ascii ''7'')\<rparr>) = Some (ascii ''7'') \<and>
   is_integer_literal (ascii ''7'') \<and> integer_literal_value (ascii ''7'') = 7 \<and>
   priority_error [] (example_form\<lparr>get_priority := Some (ascii ''7'')\<rparr>) \<and>
   is_integer_literal (ascii ''+4'') \<and> integer_literal_value (ascii ''+4'') = 4 \<and>
   \<not> priority_error [] (example_form\<lparr>get_priority := Some (ascii ''+4'')\<rparr>)"
proof -
  have 7: "is_integer_literal (ascii ''7'')" "integer_literal_value (ascii ''7'') = 7"
    by (rule example_literals)+
  have 4: "is_integer_literal (ascii ''+4'')" "integer_literal_value (ascii ''+4'') = 4"
    by (rule example_literals)+
  from priority_error_iff[of "[]" "example_form\<lparr>get_priority := Some (ascii ''7'')\<rparr>" "ascii ''7''",
      THEN conjunct2] 7
  have a: "priority_error [] (example_form\<lparr>get_priority := Some (ascii ''7'')\<rparr>)" by simp
  from priority_error_iff[of "[]" "example_form\<lparr>get_priority := Some (ascii ''+4'')\<rparr>" "ascii ''+4''",
      THEN conjunct2] 4
  have b: "\<not> priority_error [] (example_form\<lparr>get_priority := Some (ascii ''+4'')\<rparr>)" by simp
  from 7 4 a b show ?thesis by simp
qed

section \<open>The record store\<close>

text \<open>
  Claim C2. \<open>getSurveyData\<close> never raises. It returns the empty sequence when the
  storage cannot be read, when there is no value under the key, when the stored value
  does not parse, and when the parsed value is not an array; otherwise it returns the
  parsed array. The hypothesis is a fact of every JSON parser: the empty text is not a
  JSON document.
\<close>

theorem getSurveyData_never_raises:
  assumes "isl (JSON_parse h [])"
  shows "(\<exists>data. getSurveyData h st = Inr data) \<and>
         (\<forall>e. localStorage_getItem st STORAGE_KEY = Inl e \<longrightarrow> getSurveyData h st = Inr []) \<and>
         (localStorage_getItem st STORAGE_KEY = Inr None \<longrightarrow> getSurveyData h st = Inr []) \<and>
         (\<forall>raw e. localStorage_getItem st STORAGE_KEY = Inr (Some raw) \<and> JSON_parse h raw = Inl e
            \<longrightarrow> getSurveyData h st = Inr []) \<and>
         (\<forall>raw v. localStorage_getItem st STORAGE_KEY = Inr (Some raw) \<and> JSON_parse h raw = Inr v \<and>
                  (\<forall>xs. v \<noteq> JArray xs)
            \<longrightarrow> getSurveyData h st = Inr []) \<and>
         (\<forall>raw xs. localStorage_getItem st STORAGE_KEY = Inr (Some raw) \<and>
                   JSON_parse h raw = Inr (JArray xs)
            \<longrightarrow> getSurveyData h st = Inr xs)"
proof -
  have total: "\<exists>data. getSurveyData h st = Inr data"
    by (simp add: getSurveyData_def split: sum.splits)
  have blocked: "getSurveyData h st = Inr []" if "localStorage_getItem st STORAGE_KEY = Inl e" for e
    using that by (simp add: getSurveyData_def getSurveyData_try_def)
  have absent: "getSurveyData h st = Inr []" if "localStorage_getItem st STORAGE_KEY = Inr None"
    using that by (simp add: getSurveyData_def getSurveyData_try_def)
  have unparsed: "getSurveyData h st = Inr []"
    if "localStorage_getItem st STORAGE_KEY = Inr (Some raw)" "JSON_parse h raw = Inl e" for raw e
    using that by (simp add: getSurveyData_def getSurveyData_try_def)
  have other: "getSurveyData h st = Inr []"
    if "localStorage_getItem st STORAGE_KEY = Inr (Some raw)" "JSON_parse h raw = Inr v"
      "\<forall>xs. v \<noteq> JArray xs" for raw v
    using that by (cases v) (simp_all add: getSurveyData_def getSurveyData_try_def)
  have parsed: "getSurveyData h st = Inr xs"
    if "localStorage_getItem st STORAGE_KEY = Inr (Some raw)" "JSON_parse h raw = Inr (JArray xs)"
    for raw xs
  proof -
    from assms that(2) have "raw \<noteq> []" by auto
    with that show ?thesis by (simp add: getSurveyData_def getSurveyData_try_def)
  qed
  from total blocked absent unparsed other parsed show ?thesis by blast
qed

lemma example_parse:
  "JSON_parse example_host [] = Inl SyntaxError"
  "JSON_parse example_host (ascii ''not json'') = Inl SyntaxError"
  "JSON_parse example_host (ascii ''[null, 7]'') = Inr (JArray [JValue JNull, JValue (JNumber (Fin 7))])"
  by (simp_all add: example_host_def ascii_def)

theorem getSurveyData_never_raises_witness:
  "isl (JSON_parse example_host []) \<and>
   getSurveyData example_host Blocked = Inr [] \<and>
   getSurveyData example_host (Items Map.empty) = Inr [] \<and>
   getSurveyData example_host (Items [STORAGE_KEY \<mapsto> ascii ''not json'']) = Inr [] \<and>
   getSurveyData example_host (Items [STORAGE_KEY \<mapsto> ascii ''[null, 7]''])
     = Inr [JValue JNull, JValue (JNumber (Fin 7))]"
proof -
  have p: "isl (JSON_parse example_host [])" by (simp add: example_parse)
  have 1: "getSurveyData example_host Blocked = Inr []"
    using getSurveyData_never_raises[OF p, of Blocked] by simp
  have 2: "getSurveyData example_host (Items Map.empty) = Inr []"
    using getSurveyData_never_raises[OF p, of "Items Map.empty"] by simp
  have 3: "getSurveyData example_host (Items [STORAGE_KEY \<mapsto> ascii ''not json'']) = Inr []"
    using getSurveyData_never_raises[OF p, of "Items [STORAGE_KEY \<mapsto> ascii ''not json'']"]
    by (simp add: example_parse)
  have 4: "getSurveyData example_host (Items [STORAGE_KEY \<mapsto> ascii ''[null, 7]''])
     = Inr [JValue JNull, JValue (JNumber (Fin 7))]"
    using getSurveyData_never_raises[OF p, of "Items [STORAGE_KEY \<mapsto> ascii ''[null, 7]'']"]
    by (simp add: example_parse)
  from p 1 2 3 4 show ?thesis by simp
qed

section \<open>Department counts\<close>

lemma distinct_DEPARTMENTS: "distinct DEPARTMENTS"
  by (simp add: DEPARTMENTS_def)

lemma OTHER_in_DEPARTMENTS: "OTHER \<in> set DEPARTMENTS"
  by (simp add: DEPARTMENTS_def OTHER_def)

lemma initial_counts_eq: "initial_counts = map (\<lambda>d. (d, 0)) DEPARTMENTS"
  by (simp add: initial_counts_def DEPARTMENTS_def set_property_def)

lemma department_bucket_in: "department_bucket h e \<in> set DEPARTMENTS"
  by (simp add: department_bucket_def OTHER_in_DEPARTMENTS)

lemma bucket_eq:
  "map fst c = DEPARTMENTS \<Longrightarrow> bucket h c e = department_bucket h e"
proof -
  assume "map fst c = DEPARTMENTS"
  then have "fst ` set c = set DEPARTMENTS" by (metis set_map)
  then show ?thesis by (simp add: bucket_def department_bucket_def hasOwnProperty_def)
qed

lemma increment_counts:
  "increment (map (\<lambda>d. (d, n d)) ks) k = map (\<lambda>d. (d, n d + (if d = k then 1 else 0))) ks"
  by (induction ks) (auto simp: increment_def)

lemma fold_counts:
  "foldl (\<lambda>c e. increment c (bucket h c e)) (map (\<lambda>d. (d, n d)) DEPARTMENTS) data
     = map (\<lambda>d. (d, n d + count_list (map (department_bucket h) data) d)) DEPARTMENTS"
proof (induction data arbitrary: n)
  case Nil
  then show ?case by simp
next
  case (Cons e es)
  have key: "map fst (map (\<lambda>d. (d, n d)) DEPARTMENTS) = DEPARTMENTS"
    by (simp add: comp_def)
  have step: "increment (map (\<lambda>d. (d, n d)) DEPARTMENTS) (bucket h (map (\<lambda>d. (d, n d)) DEPARTMENTS) e)
      = map (\<lambda>d. (d, n d + (if d = department_bucket h e then 1 else 0))) DEPARTMENTS"
    by (simp only: bucket_eq[OF key] increment_counts)
  show ?case
    by (simp only: foldl_Cons step Cons.IH) (auto simp: add.commute)
qed

lemma departmentCounts_eq:
  "departmentCounts h data
     = map (\<lambda>d. (d, count_list (map (department_bucket h) data) d)) DEPARTMENTS"
  using fold_counts[of h "\<lambda>d. 0" data] by (simp add: departmentCounts_def initial_counts_eq)

lemma sum_counts:
  assumes "set bs \<subseteq> set ks" "distinct ks"
  shows "sum_list (map (count_list bs) ks) = length bs"
proof -
  have "sum_list (map (count_list bs) ks) = sum (count_list bs) (set ks)"
    using assms(2) by (rule sum_list_distinct_conv_sum_set)
  also have "\<dots> = length bs" using assms(1) by (simp add: sum_count_set)
  finally show ?thesis .
qed

text \<open>
  Claim C3. The department counts have exactly the known categories as keys, in their
  order; the count of a category is the number of entries whose bucket it is (so it is
  0 when there is none); one more entry increments the bucket of that entry and nothing
  else, and that bucket is the entry's own department when it is a known category and
  the catch-all category otherwise; the counts add up to the number of entries.
\<close>

theorem departmentCounts_total:
  "map fst (departmentCounts h data) = DEPARTMENTS \<and>
   departmentCounts h data
     = map (\<lambda>d. (d, count_list (map (department_bucket h) data) d)) DEPARTMENTS \<and>
   departmentCounts h (data @ [e]) = increment (departmentCounts h data) (department_bucket h e) \<and>
   department_bucket h e \<in> set DEPARTMENTS \<and>
   sum_list (map snd (departmentCounts h data)) = length data"
proof -
  have keys: "map fst (departmentCounts h data) = DEPARTMENTS"
    by (simp add: departmentCounts_eq comp_def)
  have step: "departmentCounts h (data @ [e])
      = increment (departmentCounts h data) (department_bucket h e)"
    by (simp add: departmentCounts_def bucket_eq[OF keys[unfolded departmentCounts_def]])
  have "set (map (department_bucket h) data) \<subseteq> set DEPARTMENTS"
    using department_bucket_in by auto
  then have "sum_list (map (count_list (map (department_bucket h) data)) DEPARTMENTS)
      = length (map (department_bucket h) data)"
    using distinct_DEPARTMENTS by (rule sum_counts)
  then have total: "sum_list (map snd (departmentCounts h data)) = length data"
    by (simp add: departmentCounts_eq comp_def)
  from keys step total show ?thesis
    by (simp add: departmentCounts_eq[symmetric] department_bucket_in)
qed

lemma department_bucket_example:
  "department_bucket example_host example_entry = [0x55B6, 0x696D]"
  "department_bucket example_host (example_entry\<lparr>department := JNumber (Fin 3)\<rparr>) = OTHER"
  by (simp_all add: department_bucket_def example_entry_def DEPARTMENTS_def OTHER_def
      Number_toString_def ascii_def)

theorem departmentCounts_total_witness:
  "departmentCounts example_host [example_entry, example_entry\<lparr>department := JNumber (Fin 3)\<rparr>]
     = [([0x55B6, 0x696D], 1), ([0x4E8B, 0x52D9], 0), ([0x30B7, 0x30B9, 0x30C6, 0x30E0], 0),
        ([0x305D, 0x306E, 0x4ED6], 1)] \<and>
   sum_list (map snd (departmentCounts example_host
      [example_entry, example_entry\<lparr>department := JNumber (Fin 3)\<rparr>])) = 2"
proof -
  let ?data = "[example_entry, example_entry\<lparr>department := JNumber (Fin 3)\<rparr>]"
  from departmentCounts_total[of example_host ?data example_entry]
  have eq: "departmentCounts example_host ?data
      = map (\<lambda>d. (d, count_list (map (department_bucket example_host) ?data) d)) DEPARTMENTS"
    and total: "sum_list (map snd (departmentCounts example_host ?data)) = length ?data"
    by blast+
  from eq have "departmentCounts example_host ?data
     = [([0x55B6, 0x696D], 1), ([0x4E8B, 0x52D9], 0), ([0x30B7, 0x30B9, 0x30C6, 0x30E0], 0),
        ([0x305D, 0x306E, 0x4ED6], 1)]"
    by (simp add: department_bucket_example DEPARTMENTS_def OTHER_def)
  with total show ?thesis by simp
qed

section \<open>The CSV projection\<close>

lemma escapeCell_quoted: "escapeCell h v = quoted (cell_text h v)"
  by (simp add: escapeCell_def quoted_def double_quotes_def)

lemma issue_is_text_row:
  "issue_is_text e \<Longrightarrow> csv_row h e = Inr (quoted_row (cells_of h e))"
  by (auto simp: issue_is_text_def csv_row_def quoted_row_def cells_of_def issue_text_def
      escapeCell_quoted cell_text_def ascii_def split: sum.splits)

lemma csv_rows_text:
  "list_all issue_is_text data \<Longrightarrow> csv_rows h data = Inr (map (\<lambda>e. quoted_row (cells_of h e)) data)"
  by (induction data) (simp_all add: issue_is_text_row)

lemma header_row: "join (ascii '','') (map (escapeCell h) (map JString header)) = quoted_row header"
  by (simp add: quoted_row_def escapeCell_quoted cell_text_def comp_def ascii_def)

lemma read_quoted_tail_plain:
  "c \<noteq> 0x22 \<Longrightarrow> xs \<noteq> [] \<Longrightarrow>
     read_quoted_tail (c # xs) = map_option (\<lambda>(t, rest). (c # t, rest)) (read_quoted_tail xs)"
  by (cases xs) simp_all

lemma read_quoted_tail_end:
  "rest = [] \<or> hd rest \<noteq> 0x22 \<Longrightarrow> read_quoted_tail (0x22 # rest) = Some ([], rest)"
  by (cases rest) auto

lemma read_quoted_tail_quoted:
  assumes "rest = [] \<or> hd rest \<noteq> 0x22"
  shows "read_quoted_tail (concat (map (\<lambda>c. if c = 0x22 then [0x22, 0x22] else [c]) t) @ 0x22 # rest)
           = Some (t, rest)"
proof (induction t)
  case Nil
  then show ?case using assms by (simp add: read_quoted_tail_end)
next
  case (Cons c t)
  then show ?case by (simp add: read_quoted_tail_plain)
qed

lemma read_quoted_quoted:
  "rest = [] \<or> hd rest \<noteq> 0x22 \<Longrightarrow> read_quoted (quoted t @ rest) = Some (t, rest)"
  by (simp add: read_quoted_def quoted_def read_quoted_tail_quoted)

text \<open>
  Claim C5. For entries whose issue is text (or absent), the CSV text is the rows joined
  by one newline, the header row first and then one row per entry in the order of the
  input; a row is its six cells joined by commas; a cell is its content in double quotes
  with every double quote of the content doubled and nothing else changed, so that a
  reader of quoted cells gets the content back and stops where the cell ends. The cell
  \<open>He said "hi", ok\<close> is written \<open>"He said ""hi"", ok"\<close>.
\<close>

theorem convertToCsv_quoted:
  assumes "list_all issue_is_text data"
  shows "convertToCsv h data
           = Inr (join [0x0A] (quoted_row header # map (\<lambda>e. quoted_row (cells_of h e)) data)) \<and>
         escapeCell h v = quoted (cell_text h v) \<and>
         (rest = [] \<or> hd rest \<noteq> 0x22 \<longrightarrow> read_quoted (quoted t @ rest) = Some (t, rest)) \<and>
         quoted (ascii ''He said \"hi\", ok'') = ascii ''\"He said \"\"hi\"\", ok\"''"
proof -
  have example: "quoted (ascii ''He said \"hi\", ok'') = ascii ''\"He said \"\"hi\"\", ok\"''"
    by (simp add: quoted_def ascii_def)
  have csv: "convertToCsv h data
      = Inr (join [0x0A] (quoted_row header # map (\<lambda>e. quoted_row (cells_of h e)) data))"
    by (simp only: convertToCsv_def csv_rows_text[OF assms] header_row sum.case)
  from csv example show ?thesis
    by (simp add: escapeCell_quoted read_quoted_quoted)
qed

lemma example_issue_is_text: "issue_is_text (example_entry\<lparr>issue := JString s\<rparr>)"
  by (simp add: issue_is_text_def sanitizeText_JString)

theorem convertToCsv_quoted_witness:
  "list_all issue_is_text [example_entry\<lparr>issue := JString (ascii ''He said \"hi\", ok'')\<rparr>] \<and>
   convertToCsv example_host [example_entry\<lparr>issue := JString (ascii ''He said \"hi\", ok'')\<rparr>]
     = Inr (ascii ''\"timestamp\",\"department\",\"role\",\"priority\",\"issue\",\"contact\"'' @ [0x0A] @
            ascii ''\"2024-01-01T00:00:00.000Z\",\"'' @ [0x55B6, 0x696D] @
            ascii ''\",\"\",\"3\",\"He said \"\"hi\"\", ok\",\"'' @ NO @ ascii ''\"'') \<and>
   read_quoted (quoted (ascii ''a\"b'') @ ascii '',\"c\"'') = Some (ascii ''a\"b'', ascii '',\"c\"'')"
proof -
  let ?e = "example_entry\<lparr>issue := JString (ascii ''He said \"hi\", ok'')\<rparr>"
  have t: "list_all issue_is_text [?e]" by (simp add: example_issue_is_text)
  have s: "sanitize_string (ascii ''He said \"hi\", ok'') = ascii ''He said \"hi\", ok''"
    by (simp add: sanitize_string_def trim_def ascii_def is_newline_def is_trimmed_char_def
        is_white_space_def is_line_terminator_def)
  have c: "cells_of example_host ?e
      = [ascii ''2024-01-01T00:00:00.000Z'', [0x55B6, 0x696D], [], ascii ''3'',
         ascii ''He said \"hi\", ok'', NO]"
    by (simp add: cells_of_def example_entry_def cell_text_def or_else_def issue_text_def
        sanitizeText_def s Number_toString_def) (simp add: ascii_def)
  have r: "ascii '',\"c\"'' = [] \<or> hd (ascii '',\"c\"'') \<noteq> 0x22" by (simp add: ascii_def)
  from convertToCsv_quoted[OF t, of example_host JNull "ascii '',\"c\"''" "ascii ''a\"b''"] r
  have "convertToCsv example_host [?e]
      = Inr (join [0x0A] (quoted_row header # map (\<lambda>e. quoted_row (cells_of example_host e)) [?e]))"
    and rd: "read_quoted (quoted (ascii ''a\"b'') @ ascii '',\"c\"'') = Some (ascii ''a\"b'', ascii '',\"c\"'')"
    by blast+
  then have "convertToCsv example_host [?e]
     = Inr (ascii ''\"timestamp\",\"department\",\"role\",\"priority\",\"issue\",\"contact\"'' @ [0x0A] @
            ascii ''\"2024-01-01T00:00:00.000Z\",\"'' @ [0x55B6, 0x696D] @
            ascii ''\",\"\",\"3\",\"He said \"\"hi\"\", ok\",\"'' @ NO @ ascii ''\"'')"
    by (simp add: c quoted_row_def header_def quoted_def NO_def) (simp add: ascii_def)
  with t rd show ?thesis by blast
qed

text \<open>
  Claim C10. For the empty sequence of entries \<open>convertToCsv\<close> returns one line: the six
  header cells in double quotes, joined by commas, with no data row and no newline.
\<close>

theorem convertToCsv_empty:
  "convertToCsv h [] =
     Inr (ascii ''\"timestamp\",\"department\",\"role\",\"priority\",\"issue\",\"contact\"'') \<and>
   0x0A \<notin> set (ascii ''\"timestamp\",\"department\",\"role\",\"priority\",\"issue\",\"contact\"'')"
  by (simp add: convertToCsv_def header_def escapeCell_def cell_text_def double_quotes_def
      ascii_def)

section \<open>The average priority\<close>

lemma priority_number_falsy: "\<not> ToBoolean (priority e) \<Longrightarrow> priority_number e = Fin 0"
  by (simp add: priority_number_def or_else_def)

lemma priority_number_number:
  "priority e = JNumber n \<Longrightarrow> n \<noteq> NaN \<Longrightarrow> priority_number e = n"
  by (auto simp: priority_number_def or_else_def)

lemma num_add_NaN_right: "num_add x NaN = NaN"
  by (cases x) simp_all

lemma foldl_num_add_NaN: "foldl (\<lambda>sum e. num_add sum (f e)) NaN data = NaN"
  by (induction data) simp_all

lemma totalPriority_NaN:
  assumes "e \<in> set data" "priority_number e = NaN"
  shows "totalPriority data = NaN"
proof -
  from assms(1) obtain xs ys where "data = xs @ e # ys" by (auto simp: in_set_conv_decomp)
  then show ?thesis
    by (simp add: totalPriority_def assms(2) num_add_NaN_right foldl_num_add_NaN)
qed

lemma num_add_int:
  assumes "\<bar>a + b\<bar> \<le> 2 ^ 53"
  shows "num_add (Fin (of_int a)) (Fin (of_int b)) = Fin (of_int (a + b))"
  using number_value_of_int[OF assms] by simp

lemma foldl_exact:
  assumes "\<forall>e \<in> set data. small_integer_priority e" "0 \<le> a"
    "a + 2 ^ 21 * int (length data) \<le> 2 ^ 53"
  shows "foldl (\<lambda>sum e. num_add sum (priority_number e)) (Fin (of_int a)) data
           = Fin (of_int (a + sum_list (map priority_int data)))"
  using assms
proof (induction data arbitrary: a)
  case Nil
  then show ?case by simp
next
  case (Cons e es)
  from Cons.prems(1) have e: "priority_number e = Fin (of_int (priority_int e))"
    "0 \<le> priority_int e" "priority_int e \<le> 2 ^ 21"
    by (simp_all add: small_integer_priority_def)
  have bound: "a + priority_int e + 2 ^ 21 * int (length es) \<le> 2 ^ 53"
    using Cons.prems(3) e(3) by simp
  then have "\<bar>a + priority_int e\<bar> \<le> 2 ^ 53" using Cons.prems(2) e(2) by simp
  then have step: "num_add (Fin (of_int a)) (priority_number e) = Fin (of_int (a + priority_int e))"
    unfolding e(1) by (rule num_add_int)
  have "foldl (\<lambda>sum e. num_add sum (priority_number e)) (Fin (of_int (a + priority_int e))) es
      = Fin (of_int (a + priority_int e + sum_list (map priority_int es)))"
    using Cons.prems(1,2) e(2) bound by (intro Cons.IH) simp_all
  then show ?case by (simp add: step add.assoc)
qed

lemma totalPriority_exact:
  assumes "\<forall>e \<in> set data. small_integer_priority e" "length data < 2 ^ 32"
  shows "totalPriority data = Fin (of_int (sum_list (map priority_int data)))"
proof -
  have "int (length data) \<le> 2 ^ 32" using assms(2) by simp
  then have "0 + 2 ^ 21 * int (length data) \<le> 2 ^ 53" by simp
  from foldl_exact[OF assms(1) order_refl this] show ?thesis by (simp add: totalPriority_def)
qed

text \<open>
  Claim C6, as amended. The text is \<open>0.0\<close> for the empty sequence. An entry contributes
  \<open>Number(priority || 0)\<close>: 0 when the priority is missing or otherwise falsy, the number
  itself when it is a number. When every entry contributes an integer from 0 to \<open>2^21\<close>
  (and there are fewer than \<open>2^32\<close> entries) the sum is exact, and the text is
  \<open>toFixed(1)\<close> of the binary64 quotient of the sum by the count; \<open>toFixed(1)\<close> of a
  number \<open>q\<close> below \<open>10^21\<close> prints \<open>n / 10\<close> for \<open>n\<close> the floor of \<open>10 q + 1/2\<close>, which is
  within \<open>1/20\<close> of \<open>q\<close>. When some entry contributes \<open>NaN\<close> the text is \<open>NaN\<close>.
\<close>

theorem averagePriorityText_exact:
  "averagePriorityText h [] = ascii ''0.0'' \<and>
   (\<not> ToBoolean (priority e) \<longrightarrow> priority_number e = Fin 0) \<and>
   (priority e = JNumber n \<and> n \<noteq> NaN \<longrightarrow> priority_number e = n) \<and>
   (data \<noteq> [] \<and> length data < 2 ^ 32 \<and> (\<forall>x \<in> set data. small_integer_priority x) \<longrightarrow>
      averagePriorityText h data
        = Number_toFixed1 h
            (number_value (of_int (sum_list (map priority_int data)) / of_nat (length data)))) \<and>
   (0 \<le> q \<and> q < 10 ^ 21 \<longrightarrow>
      Number_toFixed1 h (Fin q) = fixed1 (nat \<lfloor>q * 10 + 1 / 2\<rfloor>) \<and>
      \<bar>of_nat (nat \<lfloor>q * 10 + 1 / 2\<rfloor>) / 10 - q\<bar> \<le> 1 / 20) \<and>
   ((\<exists>x \<in> set data. priority_number x = NaN) \<longrightarrow> averagePriorityText h data = ascii ''NaN'')"
proof -
  have empty: "averagePriorityText h [] = ascii ''0.0''"
    by (simp add: averagePriorityText_def)
  have exact: "averagePriorityText h data
        = Number_toFixed1 h
            (number_value (of_int (sum_list (map priority_int data)) / of_nat (length data)))"
    if "data \<noteq> []" "length data < 2 ^ 32" "\<forall>x \<in> set data. small_integer_priority x"
    using that by (simp add: averagePriorityText_def totalPriority_exact)
  have nan: "averagePriorityText h data = ascii ''NaN''"
    if "\<exists>x \<in> set data. priority_number x = NaN"
  proof -
    from that obtain x where "x \<in> set data" "priority_number x = NaN" by blast
    then have "totalPriority data = NaN" by (rule totalPriority_NaN)
    moreover have "data \<noteq> []" using \<open>x \<in> set data\<close> by auto
    ultimately show ?thesis
      by (simp add: averagePriorityText_def Number_toFixed1_def Number_toString_def)
  qed
  from empty exact nan show ?thesis
    using priority_number_falsy priority_number_number Number_toFixed1_fixed1 round_tenths
    by blast
qed

text \<open>Evaluations for the examples.\<close>

lemma example_priority_numbers:
  "priority_number example_entry = Fin 3"
  "priority_number (example_entry\<lparr>priority := JNumber (Fin 4)\<rparr>) = Fin 4"
  "priority_number (example_entry\<lparr>priority := JNumber (Fin 9)\<rparr>) = Fin 9"
  "priority_number (example_entry\<lparr>priority := JUndefined\<rparr>) = Fin 0"
  by (simp_all add: priority_number_def example_entry_def or_else_def)

lemma example_priority_high:
  "priority_number (example_entry\<lparr>priority := JString (ascii ''high'')\<rparr>) = NaN"
proof -
  have "StringToNumber (ascii ''high'') = NaN" by (rule example_high)
  moreover have "ascii ''high'' \<noteq> []" by (simp add: ascii_def)
  ultimately show ?thesis by (simp add: priority_number_def or_else_def)
qed

lemma example_quotient:
  "number_value (7 / 3) = Fin (5254199565265579 / 2251799813685248)"
  by (simp add: number_value_def round_magnitude_def ilog2_def round_half_even_def Let_def
      compute_bitlen)

lemma example_fixed:
  "Number_toFixed1 h (Fin 3) = ascii ''3.0''"
  "Number_toFixed1 h (Fin 9) = ascii ''9.0''"
  "Number_toFixed1 h (Fin (5254199565265579 / 2251799813685248)) = ascii ''2.3''"
  by (simp_all add: Number_toFixed1_fixed1 fixed1_def ascii_def)

text \<open>
  The claim as stated fails: a priority that is not numeric (the string \<open>high\<close>) does
  not contribute 0 but makes the average \<open>NaN\<close>, where the claim gives 1.5; and a number
  outside 1 to 5 contributes itself, where a contribution of 0 gives 0.0.
\<close>

theorem averagePriorityText_counterexample:
  "priority_number (example_entry\<lparr>priority := JString (ascii ''high'')\<rparr>) = NaN \<and>
   averagePriorityText example_host
       [example_entry, example_entry\<lparr>priority := JString (ascii ''high'')\<rparr>] = ascii ''NaN'' \<and>
   averagePriorityText example_host [example_entry] = ascii ''3.0'' \<and>
   averagePriorityText example_host [example_entry\<lparr>priority := JNumber (Fin 9)\<rparr>] = ascii ''9.0''"
proof -
  have "totalPriority [example_entry, example_entry\<lparr>priority := JString (ascii ''high'')\<rparr>] = NaN"
    by (rule totalPriority_NaN[OF _ example_priority_high]) simp
  then have 1: "averagePriorityText example_host
       [example_entry, example_entry\<lparr>priority := JString (ascii ''high'')\<rparr>] = ascii ''NaN''"
    by (simp add: averagePriorityText_def Number_toFixed1_def Number_toString_def)
  have 2: "averagePriorityText example_host [example_entry] = ascii ''3.0''"
    by (simp add: averagePriorityText_def totalPriority_def example_priority_numbers
        number_value_numeral example_fixed)
  have 3: "averagePriorityText example_host [example_entry\<lparr>priority := JNumber (Fin 9)\<rparr>]
      = ascii ''9.0''"
    by (simp add: averagePriorityText_def totalPriority_def example_priority_numbers
        number_value_numeral example_fixed)
  from example_priority_high 1 2 3 show ?thesis by simp
qed

theorem averagePriorityText_exact_witness:
  "length [example_entry, example_entry\<lparr>priority := JNumber (Fin 4)\<rparr>,
           example_entry\<lparr>priority := JUndefined\<rparr>] < (2::nat) ^ 32 \<and>
   small_integer_priority example_entry \<and>
   small_integer_priority (example_entry\<lparr>priority := JNumber (Fin 4)\<rparr>) \<and>
   small_integer_priority (example_entry\<lparr>priority := JUndefined\<rparr>) \<and>
   averagePriorityText example_host
     [example_entry, example_entry\<lparr>priority := JNumber (Fin 4)\<rparr>,
      example_entry\<lparr>priority := JUndefined\<rparr>] = ascii ''2.3'' \<and>
   averagePriorityText example_host
     [example_entry, example_entry\<lparr>priority := JString (ascii ''high'')\<rparr>] = ascii ''NaN''"
proof -
  let ?data = "[example_entry, example_entry\<lparr>priority := JNumber (Fin 4)\<rparr>,
                example_entry\<lparr>priority := JUndefined\<rparr>]"
  let ?bad = "[example_entry, example_entry\<lparr>priority := JString (ascii ''high'')\<rparr>]"
  have i: "priority_int example_entry = 3"
    "priority_int (example_entry\<lparr>priority := JNumber (Fin 4)\<rparr>) = 4"
    "priority_int (example_entry\<lparr>priority := JUndefined\<rparr>) = 0"
    by (simp_all add: priority_int_def example_priority_numbers)
  have s: "small_integer_priority example_entry"
    "small_integer_priority (example_entry\<lparr>priority := JNumber (Fin 4)\<rparr>)"
    "small_integer_priority (example_entry\<lparr>priority := JUndefined\<rparr>)"
    by (simp_all add: small_integer_priority_def i example_priority_numbers)
  have v: "Number_toFixed1 example_host
            (number_value (of_int (sum_list (map priority_int ?data)) / of_nat (length ?data)))
           = ascii ''2.3''"
    by (simp add: i example_quotient example_fixed)
  from averagePriorityText_exact[of example_host example_entry NaN ?data 0] s v
  have a: "averagePriorityText example_host ?data = ascii ''2.3''" by simp
  from averagePriorityText_exact[of example_host example_entry NaN ?bad 0] example_priority_high
  have b: "averagePriorityText example_host ?bad = ascii ''NaN''" by simp
  from s a b show ?thesis by simp
qed

section \<open>The recent entries\<close>

lemma TimeClip_cases: "TimeClip x = NaN \<or> (\<exists>t. TimeClip x = Fin (of_int t))"
  by (cases x) auto

lemma Date_value_cases:
  "Date_value h v = NaN \<or> (\<exists>t. Date_value h v = Fin (of_int t))"
  by (cases v) (simp_all add: TimeClip_cases)

lemma valid_timestamp_time:
  "valid_timestamp h e \<Longrightarrow> Date_value h (timestamp e) = Fin (of_int (time_of h e))"
  using Date_value_cases[of h "timestamp e"] by (auto simp: valid_timestamp_def time_of_def)

lemma number_value_sign:
  "num_less (Fin 0) (number_value (of_int d)) \<longleftrightarrow> 0 < d"
proof (cases "0 < d")
  case True
  then have "(0::rat) < of_int d" "(2::rat) powi 0 \<le> of_int d" by simp_all
  then have "number_value (of_int d) = PosInf \<or>
      (\<exists>r. number_value (of_int d) = Fin r \<and> 2 powi 0 \<le> r)"
    by (intro number_value_pos) simp_all
  with True show ?thesis by auto
next
  case False
  show ?thesis
  proof (cases "d = 0")
    case True
    then show ?thesis by (simp add: number_value_def)
  next
    case nz: False
    with False have "(of_int d :: rat) < 0" "(2::rat) powi 0 \<le> - of_int d" by simp_all
    then have "number_value (of_int d) = NegInf \<or>
        (\<exists>r. number_value (of_int d) = Fin r \<and> r \<le> - (2 powi 0))"
      by (intro number_value_neg) simp_all
    with False show ?thesis by auto
  qed
qed

lemma sorts_after_valid:
  assumes "valid_timestamp h a" "valid_timestamp h b"
  shows "sorts_after (by_timestamp h) a b \<longleftrightarrow> time_of h a < time_of h b"
proof -
  have "by_timestamp h a b = number_value (of_int (time_of h b - time_of h a))"
    by (simp add: by_timestamp_def num_sub_def valid_timestamp_time[OF assms(1)]
        valid_timestamp_time[OF assms(2)])
  then show ?thesis
    using number_value_sign[of "time_of h b - time_of h a"] by (simp add: sorts_after_def)
qed

lemma num_sub_NaN: "num_sub NaN x = NaN" "num_sub x NaN = NaN"
  by (cases x; simp add: num_sub_def)+

lemma sorts_after_invalid:
  "\<not> valid_timestamp h a \<or> \<not> valid_timestamp h b \<Longrightarrow> \<not> sorts_after (by_timestamp h) a b"
  by (auto simp: sorts_after_def by_timestamp_def valid_timestamp_def num_sub_NaN)

lemma mset_insert_sorted: "mset (insert_sorted c x ys) = add_mset x (mset ys)"
  by (induction ys) auto

lemma mset_Array_sort: "mset (Array_sort c xs) = mset xs"
  by (induction xs) (simp_all add: mset_insert_sorted)

lemma length_Array_sort: "length (Array_sort c xs) = length xs"
  using mset_Array_sort[of c xs] by (metis size_mset)

lemma insert_sorted_insort:
  assumes "\<forall>y \<in> set ys. sorts_after c x y \<longleftrightarrow> \<not> f x \<le> f y"
  shows "insert_sorted c x ys = insort_key f x ys"
  using assms by (induction ys) auto

lemma Array_sort_sort_key:
  assumes "\<forall>x \<in> set xs. \<forall>y \<in> set xs. sorts_after c x y \<longleftrightarrow> \<not> f x \<le> f y"
  shows "Array_sort c xs = sort_key f xs"
  using assms
proof (induction xs)
  case Nil
  then show ?case by simp
next
  case (Cons x xs)
  then have IH: "Array_sort c xs = sort_key f xs" by simp
  have "\<forall>y \<in> set (sort_key f xs). sorts_after c x y \<longleftrightarrow> \<not> f x \<le> f y"
    using Cons.prems by simp
  then show ?case by (simp add: IH insert_sorted_insort)
qed

lemma Array_sort_valid:
  assumes "\<forall>e \<in> set data. valid_timestamp h e"
  shows "Array_sort (by_timestamp h) data = sort_key (\<lambda>e. - time_of h e) data"
  using assms by (intro Array_sort_sort_key) (auto simp: sorts_after_valid)

lemma insert_sorted_never: "\<forall>y \<in> set ys. \<not> sorts_after c x y \<Longrightarrow> insert_sorted c x ys = x # ys"
  by (cases ys) simp_all

lemma Array_sort_invalid:
  assumes "\<forall>e \<in> set data. \<not> valid_timestamp h e"
  shows "Array_sort (by_timestamp h) data = data"
  using assms
proof (induction data)
  case Nil
  then show ?case by simp
next
  case (Cons e es)
  then have "\<forall>y \<in> set es. \<not> sorts_after (by_timestamp h) e y"
    using sorts_after_invalid by auto
  with Cons show ?case by (simp add: insert_sorted_never)
qed

text \<open>
  Claim C4, as amended. The recent entries are five, or all of them when there are fewer,
  and when there are at most five they are the entries themselves in some order. When
  every timestamp is a valid date, they are the first five of the entries sorted by
  descending time, entries of equal time staying in their original order. An entry whose
  timestamp is not a valid date compares as equal to every other one, and no comparison
  of strings takes place: when no timestamp is a valid date the entries keep their order.
\<close>

theorem recentItems_sorted:
  "length (recentItems h data) = min 5 (length data) \<and>
   (length data \<le> 5 \<longrightarrow> mset (recentItems h data) = mset data) \<and>
   ((\<forall>e \<in> set data. valid_timestamp h e) \<longrightarrow>
      recentItems h data = take 5 (sort_key (\<lambda>e. - time_of h e) data) \<and>
      sorted_wrt (\<lambda>a b. time_of h b \<le> time_of h a) (recentItems h data) \<and>
      (\<forall>t. filter (\<lambda>e. time_of h e = t) (Array_sort (by_timestamp h) data)
             = filter (\<lambda>e. time_of h e = t) data)) \<and>
   ((\<forall>e \<in> set data. \<not> valid_timestamp h e) \<longrightarrow> recentItems h data = take 5 data)"
proof -
  have len: "length (recentItems h data) = min 5 (length data)"
    by (simp add: recentItems_def length_Array_sort min.commute)
  have all: "mset (recentItems h data) = mset data" if "length data \<le> 5"
    using that by (simp add: recentItems_def length_Array_sort mset_Array_sort)
  have valid: "recentItems h data = take 5 (sort_key (\<lambda>e. - time_of h e) data) \<and>
      sorted_wrt (\<lambda>a b. time_of h b \<le> time_of h a) (recentItems h data) \<and>
      (\<forall>t. filter (\<lambda>e. time_of h e = t) (Array_sort (by_timestamp h) data)
             = filter (\<lambda>e. time_of h e = t) data)"
    if v: "\<forall>e \<in> set data. valid_timestamp h e"
  proof -
    let ?k = "\<lambda>e. - time_of h e"
    have eq: "Array_sort (by_timestamp h) data = sort_key ?k data"
      using v by (rule Array_sort_valid)
    have "sorted (map ?k (sort_key ?k data))" by (rule sorted_sort_key)
    then have "sorted_wrt (\<lambda>a b. ?k a \<le> ?k b) (sort_key ?k data)"
      by (simp add: sorted_map)
    then have "sorted_wrt (\<lambda>a b. time_of h b \<le> time_of h a) (sort_key ?k data)" by simp
    then have srt: "sorted_wrt (\<lambda>a b. time_of h b \<le> time_of h a) (take 5 (sort_key ?k data))"
      by (rule sorted_wrt_take)
    have stable: "filter (\<lambda>e. time_of h e = t) (sort_key ?k data)
        = filter (\<lambda>e. time_of h e = t) data" for t
      using sort_key_stable[of ?k "- t" data] by simp
    from eq srt stable show ?thesis by (simp add: recentItems_def)
  qed
  have invalid: "recentItems h data = take 5 data" if "\<forall>e \<in> set data. \<not> valid_timestamp h e"
    using that by (simp add: recentItems_def Array_sort_invalid)
  from len all valid invalid show ?thesis by blast
qed

lemma example_at_time:
  "time_of example_host (example_at (ascii ''2024-01-01T00:00:00.000Z'') i) = 1704067200000"
  "time_of example_host (example_at (ascii ''2024-01-02T00:00:00.000Z'') i) = 1704153600000"
  "time_of example_host (example_at (ascii ''2024-01-03T00:00:00.000Z'') i) = 1704240000000"
  "valid_timestamp example_host (example_at (ascii ''2024-01-01T00:00:00.000Z'') i)"
  "valid_timestamp example_host (example_at (ascii ''2024-01-02T00:00:00.000Z'') i)"
  "valid_timestamp example_host (example_at (ascii ''2024-01-03T00:00:00.000Z'') i)"
  "\<not> valid_timestamp example_host (example_at (ascii ''a'') i)"
  "\<not> valid_timestamp example_host (example_at (ascii ''b'') i)"
  by (simp_all add: time_of_def valid_timestamp_def example_at_def example_host_def ascii_def)

text \<open>
  The claim as stated fails: two entries whose timestamps \<open>a\<close> and \<open>b\<close> are not dates
  stay in the order of the input, whichever comes first, so they are not ordered by a
  comparison of the strings.
\<close>

theorem recentItems_counterexample:
  "\<not> valid_timestamp example_host (example_at (ascii ''a'') []) \<and>
   \<not> valid_timestamp example_host (example_at (ascii ''b'') []) \<and>
   recentItems example_host [example_at (ascii ''a'') [], example_at (ascii ''b'') []]
     = [example_at (ascii ''a'') [], example_at (ascii ''b'') []] \<and>
   recentItems example_host [example_at (ascii ''b'') [], example_at (ascii ''a'') []]
     = [example_at (ascii ''b'') [], example_at (ascii ''a'') []]"
  by (simp add: recentItems_def sorts_after_invalid example_at_time)

theorem recentItems_sorted_witness:
  "recentItems example_host
     [example_at (ascii ''2024-01-01T00:00:00.000Z'') (ascii ''a''),
      example_at (ascii ''2024-01-03T00:00:00.000Z'') (ascii ''b''),
      example_at (ascii ''2024-01-02T00:00:00.000Z'') (ascii ''c''),
      example_at (ascii ''2024-01-03T00:00:00.000Z'') (ascii ''d''),
      example_at (ascii ''2024-01-01T00:00:00.000Z'') (ascii ''e''),
      example_at (ascii ''2024-01-02T00:00:00.000Z'') (ascii ''f''),
      example_at (ascii ''2024-01-03T00:00:00.000Z'') (ascii ''g'')]
   = [example_at (ascii ''2024-01-03T00:00:00.000Z'') (ascii ''b''),
      example_at (ascii ''2024-01-03T00:00:00.000Z'') (ascii ''d''),
      example_at (ascii ''2024-01-03T00:00:00.000Z'') (ascii ''g''),
      example_at (ascii ''2024-01-02T00:00:00.000Z'') (ascii ''c''),
      example_at (ascii ''2024-01-02T00:00:00.000Z'') (ascii ''f'')] \<and>
   recentItems example_host [example_at (ascii ''b'') [], example_at (ascii ''a'') []]
     = [example_at (ascii ''b'') [], example_at (ascii ''a'') []]"
proof -
  let ?data = "[example_at (ascii ''2024-01-01T00:00:00.000Z'') (ascii ''a''),
      example_at (ascii ''2024-01-03T00:00:00.000Z'') (ascii ''b''),
      example_at (ascii ''2024-01-02T00:00:00.000Z'') (ascii ''c''),
      example_at (ascii ''2024-01-03T00:00:00.000Z'') (ascii ''d''),
      example_at (ascii ''2024-01-01T00:00:00.000Z'') (ascii ''e''),
      example_at (ascii ''2024-01-02T00:00:00.000Z'') (ascii ''f''),
      example_at (ascii ''2024-01-03T00:00:00.000Z'') (ascii ''g'')]"
  have v: "\<forall>e \<in> set ?data. valid_timestamp example_host e" by (simp add: example_at_time)
  from recentItems_sorted[of example_host ?data] v
  have "recentItems example_host ?data = take 5 (sort_key (\<lambda>e. - time_of example_host e) ?data)"
    by blast
  then have a: "recentItems example_host ?data
   = [example_at (ascii ''2024-01-03T00:00:00.000Z'') (ascii ''b''),
      example_at (ascii ''2024-01-03T00:00:00.000Z'') (ascii ''d''),
      example_at (ascii ''2024-01-03T00:00:00.000Z'') (ascii ''g''),
      example_at (ascii ''2024-01-02T00:00:00.000Z'') (ascii ''c''),
      example_at (ascii ''2024-01-02T00:00:00.000Z'') (ascii ''f'')]"
    by (simp add: example_at_time)
  let ?bad = "[example_at (ascii ''b'') [], example_at (ascii ''a'') []]"
  have i: "\<forall>e \<in> set ?bad. \<not> valid_timestamp example_host e" by (simp add: example_at_time)
  from recentItems_sorted[of example_host ?bad] i
  have b: "recentItems example_host ?bad = ?bad" by simp
  from a b show ?thesis by simp
qed

subsection \<open>The issue preview\<close>

text \<open>
  For an entry whose stored issue is already sanitized, as the form stores it, the
  preview is the first 20 code units and the ellipsis marks a truncation.
\<close>

lemma issueText_sanitized:
  assumes "issue e = JString s" "sanitize_string s = s"
  shows "issueText e = Inr (take 20 s @ (if 20 < length s then ELLIPSIS else []))"
  using assms by (auto simp: issueText_def sanitizeText_JString issue_longer_than_20_def)

text \<open>
  Sanitizing never lengthens a text, so a preview that was truncated always ends with
  the ellipsis.
\<close>

lemma issueText_truncated:
  assumes "issue e = JString s" "20 < length (sanitize_string s)"
  shows "issueText e = Inr (take 20 (sanitize_string s) @ ELLIPSIS)"
proof -
  have "20 < length s" using assms(2) length_sanitize_string[of s] by linarith
  then have "issue_longer_than_20 (JString s)" by (auto simp: issue_longer_than_20_def)
  then show ?thesis by (simp add: issueText_def assms(1) sanitizeText_JString)
qed

text \<open>
  Claim C9 fails on the code. The ellipsis is decided by the length of the stored issue,
  not of the sanitized one: an issue of 14 code units followed by 7 spaces is shown in
  full, 14 code units, and the ellipsis is appended all the same.
\<close>

theorem issueText_ellipsis_without_truncation:
  "sanitizeText (JString (ascii ''No printer ink       '')) = Inr (ascii ''No printer ink'') \<and>
   length (ascii ''No printer ink'') = 14 \<and>
   length (ascii ''No printer ink       '') = 21 \<and>
   issueText (example_entry\<lparr>issue := JString (ascii ''No printer ink       '')\<rparr>)
     = Inr (ascii ''No printer ink'' @ ELLIPSIS)"
proof -
  have s: "sanitize_string (ascii ''No printer ink       '') = ascii ''No printer ink''"
    by (simp add: sanitize_string_def trim_def ascii_def is_newline_def is_trimmed_char_def
        is_white_space_def is_line_terminator_def)
  have l: "length (ascii ''No printer ink'') = 14" "length (ascii ''No printer ink       '') = 21"
    "ascii ''No printer ink       '' \<noteq> []"
    by (simp_all add: ascii_def)
  show ?thesis
    by (simp add: issueText_def sanitizeText_JString s l issue_longer_than_20_def)
qed

end
